theory Spec2Isabelle
  imports Complex_Main "HOL-Library.Word"
begin

section \<open>Raster images\<close>

text \<open>
  The three scripts under \<^verbatim>\<open>scripts/assets\<close> build Android launcher icons and
  splash logos with an imaging library. A channel value is one byte, an RGBA pixel is
  four of them, and an image is its size together with its rows of pixels (row \<open>y\<close>,
  column \<open>x\<close>). The image type is polymorphic in the pixel so that the one-channel
  mode \<^verbatim>\<open>'L'\<close> (the masks) and the mode \<^verbatim>\<open>'RGBA'\<close> share it.
\<close>

type_synonym byte = "8 word"

datatype pixel = RGBA (red: byte) (green: byte) (blue: byte) (alpha: byte)

record 'p image =
  width :: nat
  height :: nat
  rows :: "'p list list"

definition getpixel :: "'p image \<Rightarrow> nat \<Rightarrow> nat \<Rightarrow> 'p" where
  "getpixel img x y = rows img ! y ! x"

text \<open>An image whose rows are computed pixel by pixel from its coordinates.\<close>

definition raster :: "nat \<Rightarrow> nat \<Rightarrow> (nat \<Rightarrow> nat \<Rightarrow> 'p) \<Rightarrow> 'p image" where
  "raster w h f = \<lparr>width = w, height = h, rows = map (\<lambda>y. map (\<lambda>x. f x y) [0..<w]) [0..<h]\<rparr>"

text \<open>
  An image is square of edge \<open>n\<close> when its recorded size is \<open>n\<close> by \<open>n\<close> and its pixel
  data has exactly \<open>n\<close> rows of \<open>n\<close> pixels.
\<close>

definition square :: "'p image \<Rightarrow> nat \<Rightarrow> bool" where
  "square img n \<longleftrightarrow>
     width img = n \<and> height img = n \<and> length (rows img) = n \<and> list_all (\<lambda>r. length r = n) (rows img)"

section \<open>The imaging library\<close>

text \<open>
  The scripts call the imaging library for everything they do to pixels. The parts of
  it whose result is fixed by the library's documentation are modelled below
  (\<open>Image_new\<close>, \<open>paste\<close>, the size of a resized image). The parts that are numeric
  algorithms of the library are parameters of the model, collected in one record:
  \<^item> \<open>decode\<close>: the pixels, in mode RGBA, of an image file's bytes, or \<open>None\<close> when
    the bytes are not an image the library can read;
  \<^item> \<open>encode\<close>: the bytes of the optimised PNG file of an image;
  \<^item> \<open>lanczos\<close>: the Lanczos resampling filter, \<open>lanczos src w h x y\<close> being the
    pixel at \<open>(x, y)\<close> of \<open>src\<close> resampled to \<open>w\<close> by \<open>h\<close>;
  \<^item> \<open>ellipse\<close>: the rasterisation of an ellipse, \<open>ellipse (x0, y0, x1, y1) (x, y)\<close>
    telling whether the filled ellipse of that bounding box covers the pixel \<open>(x, y)\<close>.
  Every theorem below holds for every value of these parameters unless it says
  otherwise.
\<close>

record imaging =
  decode :: "byte list \<Rightarrow> pixel image option"
  encode :: "pixel image \<Rightarrow> byte list"
  lanczos :: "pixel image \<Rightarrow> nat \<Rightarrow> nat \<Rightarrow> nat \<Rightarrow> nat \<Rightarrow> pixel"
  ellipse :: "int \<times> int \<times> int \<times> int \<Rightarrow> int \<times> int \<Rightarrow> bool"

datatype error =
  FileNotFoundError | IsADirectoryError | NotADirectoryError | UnidentifiedImageError | ValueError

text \<open>\<^verbatim>\<open>Image.new(mode, (w, h), colour)\<close>: every pixel has the given colour.\<close>

definition Image_new :: "nat \<Rightarrow> nat \<Rightarrow> 'p \<Rightarrow> 'p image" where
  "Image_new w h c = \<lparr>width = w, height = h, rows = replicate h (replicate w c)\<rparr>"

text \<open>
  \<^verbatim>\<open>ImageDraw.Draw(img).ellipse(bbox, fill=c)\<close>: the pixels the ellipse covers take
  the fill colour as it is (drawing does not blend), the others keep theirs.
\<close>

definition draw_ellipse :: "imaging \<Rightarrow> 'p image \<Rightarrow> int \<times> int \<times> int \<times> int \<Rightarrow> 'p \<Rightarrow> 'p image" where
  "draw_ellipse lib img bbox fill =
     raster (width img) (height img)
       (\<lambda>x y. if ellipse lib bbox (int x, int y) then fill else getpixel img x y)"

text \<open>
  \<^verbatim>\<open>img.resize((w, h), Image.Resampling.LANCZOS)\<close>: an image of the requested size;
  the library raises \<^verbatim>\<open>ValueError\<close> when a requested edge is zero.
\<close>

definition resize :: "imaging \<Rightarrow> pixel image \<Rightarrow> nat \<Rightarrow> nat \<Rightarrow> error + pixel image" where
  "resize lib img w h =
     (if w = 0 \<or> h = 0 then Inl ValueError else Inr (raster w h (lanczos lib img w h)))"

text \<open>
  The library's rounded division by 255 of a 16-bit product, and its blend of two
  channel values under a mask value: \<^verbatim>\<open>DIV255(in1 * (255 - mask) + in2 * mask)\<close>.
\<close>

definition div255 :: "nat \<Rightarrow> nat" where
  "div255 a = (let tmp = a + 128 in (tmp div 256 + tmp) div 256)"

definition blend :: "byte \<Rightarrow> byte \<Rightarrow> byte \<Rightarrow> byte" where
  "blend m in1 in2 = of_nat (div255 (unat in1 * (255 - unat m) + unat in2 * unat m))"

definition blend_pixel :: "byte \<Rightarrow> pixel \<Rightarrow> pixel \<Rightarrow> pixel" where
  "blend_pixel m p q =
     RGBA (blend m (red p) (red q)) (blend m (green p) (green q))
          (blend m (blue p) (blue q)) (blend m (alpha p) (alpha q))"

text \<open>
  \<^verbatim>\<open>dst.paste(src, (ox, oy), mask)\<close> with a mask of the size of \<open>src\<close>: inside the
  part of \<open>src\<close> that falls on \<open>dst\<close>, each pixel of \<open>dst\<close> becomes the blend of itself
  and the pixel of \<open>src\<close> under the mask value there, all four channels alike; what
  falls outside \<open>dst\<close> is clipped. When the mask is an RGBA image, its alpha band is the
  mask (\<open>alpha_band\<close>).
\<close>

definition alpha_band :: "pixel image \<Rightarrow> byte image" where
  "alpha_band img = \<lparr>width = width img, height = height img, rows = map (map alpha) (rows img)\<rparr>"

definition paste :: "pixel image \<Rightarrow> pixel image \<Rightarrow> int \<times> int \<Rightarrow> byte image \<Rightarrow> pixel image" where
  "paste dst src pos msk =
     raster (width dst) (height dst)
       (\<lambda>x y. let sx = int x - fst pos; sy = int y - snd pos
              in if 0 \<le> sx \<and> sx < int (width src) \<and> 0 \<le> sy \<and> sy < int (height src)
                 then blend_pixel (getpixel msk (nat sx) (nat sy)) (getpixel dst x y)
                        (getpixel src (nat sx) (nat sy))
                 else getpixel dst x y)"

section \<open>Files, paths and the console\<close>

text \<open>
  The file system maps a path to a directory or to a file's bytes; the console is the
  list of lines printed so far. A printed line is kept as its kind and its arguments;
  the fixed banner lines are \<open>Info\<close> with their text, without the leading pictograph
  and without the line breaks around it.
\<close>

datatype entry = Dir | File "byte list"

datatype line =
    Info string
  | Error_source_not_found string
  | Warning_not_found string
  | Created_circular_icon string string nat
  | Generated_splash_logo string nat
  | Scaled string nat

record world =
  files :: "string \<rightharpoonup> entry"
  console :: "line list"

definition print :: "world \<Rightarrow> line \<Rightarrow> world" where
  "print st l = st\<lparr>console := console st @ [l]\<rparr>"

fun prints :: "world \<Rightarrow> line list \<Rightarrow> world" where
  "prints st [] = st"
| "prints st (l # ls) = prints (print st l) ls"

definition path_exists :: "world \<Rightarrow> string \<Rightarrow> bool" where
  "path_exists st p \<longleftrightarrow> files st p \<noteq> None"

text \<open>\<^verbatim>\<open>os.path.join\<close> of two components, \<^verbatim>\<open>os.path.basename\<close>, \<^verbatim>\<open>os.path.dirname\<close>.\<close>

definition path_join :: "string \<Rightarrow> string \<Rightarrow> string" where
  "path_join a b =
     (if b \<noteq> [] \<and> hd b = CHR ''/'' then b
      else if a = [] \<or> last a = CHR ''/'' then a @ b
      else a @ ''/'' @ b)"

definition rstrip_sep :: "string \<Rightarrow> string" where
  "rstrip_sep p = rev (dropWhile (\<lambda>c. c = CHR ''/'') (rev p))"

definition basename :: "string \<Rightarrow> string" where
  "basename p = rev (takeWhile (\<lambda>c. c \<noteq> CHR ''/'') (rev p))"

definition dirname :: "string \<Rightarrow> string" where
  "dirname p =
     (let head = rev (dropWhile (\<lambda>c. c \<noteq> CHR ''/'') (rev p))
      in if head \<noteq> [] \<and> \<not> list_all (\<lambda>c. c = CHR ''/'') head then rstrip_sep head else head)"

text \<open>
  \<^verbatim>\<open>os.path.expanduser\<close> on a path that starts with \<^verbatim>\<open>~/\<close>, the only use the scripts
  make of it; \<open>home\<close> is the user's home directory, taken from the environment.
\<close>

definition expanduser :: "string \<Rightarrow> string \<Rightarrow> string" where
  "expanduser home p = (if take 2 p = ''~/'' then rstrip_sep home @ drop 1 p else p)"

text \<open>
  \<^verbatim>\<open>Image.open(p).convert('RGBA')\<close> fails when \<open>p\<close> is missing, is a directory, or
  holds bytes the library cannot read.
\<close>

definition Image_open :: "imaging \<Rightarrow> world \<Rightarrow> string \<Rightarrow> error + pixel image" where
  "Image_open lib st p =
     (case files st p of
        None \<Rightarrow> Inl FileNotFoundError
      | Some Dir \<Rightarrow> Inl IsADirectoryError
      | Some (File bs) \<Rightarrow>
          (case decode lib bs of None \<Rightarrow> Inl UnidentifiedImageError | Some img \<Rightarrow> Inr img))"

text \<open>
  \<^verbatim>\<open>img.save(p, 'PNG', optimize=True)\<close> creates or overwrites the file \<open>p\<close>; it fails
  when the directory of \<open>p\<close> is missing or is a file, or when \<open>p\<close> is a directory.
\<close>

definition save :: "imaging \<Rightarrow> world \<Rightarrow> string \<Rightarrow> pixel image \<Rightarrow> error + world" where
  "save lib st p img =
     (case files st (dirname p) of
        None \<Rightarrow> Inl FileNotFoundError
      | Some (File bs) \<Rightarrow> Inl NotADirectoryError
      | Some Dir \<Rightarrow>
          (case files st p of
             Some Dir \<Rightarrow> Inl IsADirectoryError
           | _ \<Rightarrow> Inr (st\<lparr>files := (files st)(p \<mapsto> File (encode lib img))\<rparr>)))"

section \<open>The circular icon generator\<close>

text \<open>
  \<^verbatim>\<open>create_circular_android_icons.py\<close>. \<^verbatim>\<open>LOGO_SCALE\<close> is the literal \<^verbatim>\<open>0.72\<close>
  and \<^verbatim>\<open>int\<close> truncates towards zero. The source multiplies in double precision; the
  double nearest to 0.72 is below it by less than \<open>3 / 10 ^ 17\<close>, so for every size an
  image can have the product rounds to the same integer part as the exact one, and the
  model computes with the exact rational.
\<close>

definition ICON_SIZES :: "(string \<times> nat) list" where
  "ICON_SIZES = [(''mdpi'', 48), (''hdpi'', 72), (''xhdpi'', 96), (''xxhdpi'', 144), (''xxxhdpi'', 192)]"

definition BASE_PATH :: string where
  "BASE_PATH = ''android/app/src/main/res''"

definition LOGO_SCALE :: rat where
  "LOGO_SCALE = 72 / 100"

definition py_int :: "rat \<Rightarrow> int" where
  "py_int q = (if 0 \<le> q then \<lfloor>q\<rfloor> else \<lceil>q\<rceil>)"

definition create_circular_icon ::
  "imaging \<Rightarrow> string \<Rightarrow> string \<Rightarrow> nat \<Rightarrow> bool \<Rightarrow> world \<Rightarrow> error + world" where
  "create_circular_icon lib source_path output_path sz is_round st =
     (let canvas = Image_new sz sz (RGBA 0 0 0 0);
          canvas = draw_ellipse lib canvas (0, 0, int sz - 1, int sz - 1) (RGBA 0 0 0 255)
      in case Image_open lib st source_path of
           Inl e \<Rightarrow> Inl e
         | Inr logo \<Rightarrow>
             (let logo_size = nat (py_int (of_nat sz * LOGO_SCALE))
              in case resize lib logo logo_size logo_size of
                   Inl e \<Rightarrow> Inl e
                 | Inr logo_resized \<Rightarrow>
                     (let position = ((int sz - int logo_size) div 2, (int sz - int logo_size) div 2);
                          canvas = paste canvas logo_resized position (alpha_band logo_resized);
                          canvas =
                            (if is_round then
                               let msk = Image_new sz sz (0 :: byte);
                                   msk = draw_ellipse lib msk (0, 0, int sz - 1, int sz - 1) 255;
                                   output_img = Image_new sz sz (RGBA 0 0 0 0);
                                   output_img = paste output_img canvas (0, 0) msk
                               in output_img
                             else canvas)
                      in case save lib st output_path canvas of
                           Inl e \<Rightarrow> Inl e
                         | Inr st' \<Rightarrow>
                             (let density = basename (dirname output_path);
                                  icon_type = (if is_round then ''round'' else ''standard'')
                              in Inr (print st' (Created_circular_icon icon_type density sz))))))"

fun circular_loop :: "imaging \<Rightarrow> string \<Rightarrow> (string \<times> nat) list \<Rightarrow> world \<Rightarrow> error + world" where
  "circular_loop lib source [] st = Inr st"
| "circular_loop lib source ((density, sz) # rest) st =
     (let mipmap_dir = path_join BASE_PATH (''mipmap-'' @ density);
          standard_path = path_join mipmap_dir ''ic_launcher.png''
      in case (if path_exists st mipmap_dir
               then create_circular_icon lib source standard_path sz False st
               else Inr (print st (Warning_not_found mipmap_dir))) of
           Inl e \<Rightarrow> Inl e
         | Inr st1 \<Rightarrow>
             (let round_path = path_join mipmap_dir ''ic_launcher_round.png''
              in case (if path_exists st1 mipmap_dir
                       then create_circular_icon lib source round_path sz True st1
                       else Inr st1) of
                   Inl e \<Rightarrow> Inl e
                 | Inr st2 \<Rightarrow> circular_loop lib source rest st2))"

definition circular_SOURCE_LOGO :: "string \<Rightarrow> string" where
  "circular_SOURCE_LOGO home = expanduser home ''~/Desktop/RUNSTR LOGO FINAL/expo/icon.png''"

definition circular_main :: "imaging \<Rightarrow> string \<Rightarrow> world \<Rightarrow> error + world" where
  "circular_main lib home st =
     (let SOURCE_LOGO = circular_SOURCE_LOGO home
      in if \<not> path_exists st SOURCE_LOGO
         then Inr (print st (Error_source_not_found SOURCE_LOGO))
         else
           case circular_loop lib SOURCE_LOGO ICON_SIZES
                  (prints st
                     [Info ''Creating circular Android icons with black background...'',
                      Info ''Icon specifications:'',
                      Info ''   - Black circular background'',
                      Info ''   - White RUNSTR logo at 60% scale (fits within 66% safe zone)'',
                      Info ''   - Transparent corners for adaptive icon system'']) of
             Inl e \<Rightarrow> Inl e
           | Inr st' \<Rightarrow>
               Inr (prints st'
                      [Info ''All circular Android icons created successfully!'',
                       Info ''Benefits:'',
                       Info ''   - Logo perfectly fits Android's circular adaptive icon mask'',
                       Info ''   - Black background matches your dark theme'',
                       Info ''   - No white corners showing through'',
                       Info ''   - Professional appearance on all Android launchers'',
                       Info ''Rebuild the Android app to see the circular RUNSTR logo.'']))"

section \<open>The splash logo generator\<close>

text \<open>\<^verbatim>\<open>generate_splash_screens.py\<close>.\<close>

definition SPLASH_SIZES :: "(string \<times> nat) list" where
  "SPLASH_SIZES = [(''mdpi'', 300), (''hdpi'', 450), (''xhdpi'', 600), (''xxhdpi'', 900), (''xxxhdpi'', 1200)]"

definition generate_splash_logo ::
  "imaging \<Rightarrow> string \<Rightarrow> string \<Rightarrow> nat \<Rightarrow> world \<Rightarrow> error + world" where
  "generate_splash_logo lib source_path output_path sz st =
     (case Image_open lib st source_path of
        Inl e \<Rightarrow> Inl e
      | Inr img \<Rightarrow>
          (case resize lib img sz sz of
             Inl e \<Rightarrow> Inl e
           | Inr img_resized \<Rightarrow>
               (case save lib st output_path img_resized of
                  Inl e \<Rightarrow> Inl e
                | Inr st' \<Rightarrow>
                    let density = basename (dirname output_path)
                    in Inr (print st' (Generated_splash_logo density sz)))))"

fun splash_loop :: "imaging \<Rightarrow> string \<Rightarrow> (string \<times> nat) list \<Rightarrow> world \<Rightarrow> error + world" where
  "splash_loop lib source [] st = Inr st"
| "splash_loop lib source ((density, sz) # rest) st =
     (let regular_dir = path_join BASE_PATH (''drawable-'' @ density);
          regular_path = path_join regular_dir ''splashscreen_logo.png''
      in case (if path_exists st regular_dir
               then generate_splash_logo lib source regular_path sz st
               else Inr (print st (Warning_not_found regular_dir))) of
           Inl e \<Rightarrow> Inl e
         | Inr st1 \<Rightarrow>
             (let dark_dir = path_join BASE_PATH (''drawable-night-'' @ density);
                  dark_path = path_join dark_dir ''splashscreen_logo.png''
              in case (if path_exists st1 dark_dir
                       then generate_splash_logo lib source dark_path sz st1
                       else Inr (print st1 (Warning_not_found dark_dir))) of
                   Inl e \<Rightarrow> Inl e
                 | Inr st2 \<Rightarrow> splash_loop lib source rest st2))"

definition splash_SOURCE_LOGO :: "string \<Rightarrow> string" where
  "splash_SOURCE_LOGO home = expanduser home ''~/Desktop/RUNSTR LOGO FINAL/expo/splash-icon.png''"

definition splash_main :: "imaging \<Rightarrow> string \<Rightarrow> world \<Rightarrow> error + world" where
  "splash_main lib home st =
     (let SOURCE_LOGO = splash_SOURCE_LOGO home
      in if \<not> path_exists st SOURCE_LOGO
         then Inr (print st (Error_source_not_found SOURCE_LOGO))
         else
           case splash_loop lib SOURCE_LOGO SPLASH_SIZES
                  (print st (Info ''Generating Android splash screen logos from RUNSTR logo...'')) of
             Inl e \<Rightarrow> Inl e
           | Inr st' \<Rightarrow>
               Inr (prints st'
                      [Info ''All splash screen logos generated successfully!'',
                       Info ''The splash screen will now show the full RUNSTR logo on a black background.'',
                       Info ''Rebuild the Android app to see the updated splash screen.'']))"

section \<open>The icon upscaler\<close>

text \<open>
  \<^verbatim>\<open>scale_android_icons.py\<close>. \<^verbatim>\<open>SCALE_FACTOR\<close> is the literal \<^verbatim>\<open>2.0\<close>, and doubling
  is exact in double precision.
\<close>

definition DENSITIES :: "(string \<times> nat) list" where
  "DENSITIES = [(''mdpi'', 48), (''hdpi'', 72), (''xhdpi'', 96), (''xxhdpi'', 144), (''xxxhdpi'', 192)]"

definition SCALE_FACTOR :: rat where
  "SCALE_FACTOR = 2"

definition scale_icon :: "imaging \<Rightarrow> string \<Rightarrow> string \<Rightarrow> nat \<Rightarrow> world \<Rightarrow> error + world" where
  "scale_icon lib input_path output_path canvas_size st =
     (case Image_open lib st input_path of
        Inl e \<Rightarrow> Inl e
      | Inr img \<Rightarrow>
          (let new_size = nat (py_int (of_nat canvas_size * SCALE_FACTOR))
           in case resize lib img new_size new_size of
                Inl e \<Rightarrow> Inl e
              | Inr img_scaled \<Rightarrow>
                  (let canvas = Image_new canvas_size canvas_size (RGBA 0 0 0 0);
                       offset = (int canvas_size - int new_size) div 2;
                       canvas = paste canvas img_scaled (offset, offset) (alpha_band img_scaled)
                   in case save lib st output_path canvas of
                        Inl e \<Rightarrow> Inl e
                      | Inr st' \<Rightarrow> Inr (print st' (Scaled (basename input_path) canvas_size)))))"

fun scale_names :: "imaging \<Rightarrow> string \<Rightarrow> nat \<Rightarrow> string list \<Rightarrow> world \<Rightarrow> error + world" where
  "scale_names lib mipmap_dir sz [] st = Inr st"
| "scale_names lib mipmap_dir sz (icon_name # names) st =
     (let icon_path = path_join mipmap_dir icon_name
      in case (if path_exists st icon_path
               then scale_icon lib icon_path icon_path sz st
               else Inr (print st (Warning_not_found icon_path))) of
           Inl e \<Rightarrow> Inl e
         | Inr st1 \<Rightarrow> scale_names lib mipmap_dir sz names st1)"

fun scale_loop :: "imaging \<Rightarrow> string \<Rightarrow> (string \<times> nat) list \<Rightarrow> world \<Rightarrow> error + world" where
  "scale_loop lib base_path [] st = Inr st"
| "scale_loop lib base_path ((density, sz) # rest) st =
     (let mipmap_dir = path_join base_path (''mipmap-'' @ density)
      in case scale_names lib mipmap_dir sz [''ic_launcher.png'', ''ic_launcher_round.png''] st of
           Inl e \<Rightarrow> Inl e
         | Inr st1 \<Rightarrow> scale_loop lib base_path rest st1)"

definition scale_main :: "imaging \<Rightarrow> world \<Rightarrow> error + world" where
  "scale_main lib st =
     (let base_path = ''android/app/src/main/res''
      in case scale_loop lib base_path DENSITIES
                (print st (Info ''Scaling Android app icons to make RUNSTR logo larger...'')) of
           Inl e \<Rightarrow> Inl e
         | Inr st' \<Rightarrow>
             Inr (prints st'
                    [Info ''All Android icons scaled successfully!'',
                     Info ''Rebuild the Android app to see the larger RUNSTR logo.'']))"

section \<open>The composition, pixel by pixel\<close>

text \<open>
  The specification describes the two compositions in words. The definitions of this
  section follow those words, one pixel at a time; the theorems below compare them
  with what the scripts save.

  The icon (specification, 4.1): a transparent square canvas; an opaque filled circle
  of one colour spanning it; the logo resized to 72% of the canvas edge, in whole
  pixels; the logo pasted centred, its own alpha channel being the paste mask; for the
  round variant, a second circular mask over the whole result.
\<close>

definition spec_background :: "imaging \<Rightarrow> nat \<Rightarrow> nat \<Rightarrow> nat \<Rightarrow> pixel" where
  "spec_background lib sz x y =
     (if ellipse lib (0, 0, int sz - 1, int sz - 1) (int x, int y) then RGBA 0 0 0 255 else RGBA 0 0 0 0)"

definition spec_logo_edge :: "nat \<Rightarrow> nat" where
  "spec_logo_edge sz = sz * 72 div 100"

definition spec_composite :: "imaging \<Rightarrow> pixel image \<Rightarrow> nat \<Rightarrow> nat \<Rightarrow> nat \<Rightarrow> pixel" where
  "spec_composite lib logo sz x y =
     (let n = spec_logo_edge sz; off = (sz - n) div 2
      in if off \<le> x \<and> x < off + n \<and> off \<le> y \<and> y < off + n
         then let q = lanczos lib logo n n (x - off) (y - off)
              in blend_pixel (alpha q) (spec_background lib sz x y) q
         else spec_background lib sz x y)"

definition spec_icon_pixel :: "imaging \<Rightarrow> pixel image \<Rightarrow> nat \<Rightarrow> bool \<Rightarrow> nat \<Rightarrow> nat \<Rightarrow> pixel" where
  "spec_icon_pixel lib logo sz is_round x y =
     (if is_round \<and> \<not> ellipse lib (0, 0, int sz - 1, int sz - 1) (int x, int y)
      then RGBA 0 0 0 0
      else spec_composite lib logo sz x y)"

text \<open>
  The upscaled icon (specification, 4.3): the icon resized to twice the canvas edge,
  pasted on a transparent canvas of the original size at a centring offset that is
  negative, so that the canvas shows the middle of the enlarged icon, its own alpha
  being the paste mask.
\<close>

definition spec_upscaled_pixel :: "imaging \<Rightarrow> pixel image \<Rightarrow> nat \<Rightarrow> nat \<Rightarrow> nat \<Rightarrow> pixel" where
  "spec_upscaled_pixel lib img n x y =
     (let q = lanczos lib img (2 * n) (2 * n) (x + (n + 1) div 2) (y + (n + 1) div 2)
      in blend_pixel (alpha q) (RGBA 0 0 0 0) q)"

section \<open>The three loops as one\<close>

text \<open>
  Each loop of the three \<^verbatim>\<open>main\<close> functions does, for one item after the other: if a
  path exists, run an action, otherwise print what the script prints when it skips the
  item (one warning, or nothing). \<open>run_jobs\<close> is that loop over any list of items;
  the lemmas below show that each script's loop is \<open>run_jobs\<close> on its own items, so
  that what holds of \<open>run_jobs\<close> is proved once.
\<close>

fun run_jobs ::
  "('j \<Rightarrow> string) \<Rightarrow> ('j \<Rightarrow> world \<Rightarrow> error + world) \<Rightarrow> ('j \<Rightarrow> line list) \<Rightarrow> 'j list \<Rightarrow> world
     \<Rightarrow> error + world" where
  "run_jobs chk act skip [] st = Inr st"
| "run_jobs chk act skip (j # js) st =
     (case (if path_exists st (chk j) then act j st else Inr (prints st (skip j))) of
        Inl e \<Rightarrow> Inl e
      | Inr st1 \<Rightarrow> run_jobs chk act skip js st1)"

text \<open>
  What the lemmas on \<open>run_jobs\<close> ask of the items. \<open>writes_only\<close>: an action that
  returns has written the one file \<open>out j\<close> and printed the one line \<open>msg j\<close>.
  \<open>apart\<close>: the outputs are distinct, all in the set \<open>outs\<close>, and an item checks no
  output but its own. \<open>stepped\<close>: the world after one turn of the loop.
\<close>

definition writes_only ::
  "('j \<Rightarrow> world \<Rightarrow> error + world) \<Rightarrow> ('j \<Rightarrow> string) \<Rightarrow> ('j \<Rightarrow> line) \<Rightarrow> 'j list \<Rightarrow> bool" where
  "writes_only act out msg js \<longleftrightarrow>
     (\<forall>j \<in> set js. \<forall>st st'. act j st = Inr st' \<longrightarrow>
        (\<exists>bs. files st' = (files st)(out j \<mapsto> File bs)) \<and> console st' = console st @ [msg j])"

definition apart :: "('j \<Rightarrow> string) \<Rightarrow> ('j \<Rightarrow> string) \<Rightarrow> string set \<Rightarrow> 'j list \<Rightarrow> bool" where
  "apart chk out outs js \<longleftrightarrow>
     distinct (map out js) \<and> out ` set js \<subseteq> outs \<and> (\<forall>j \<in> set js. chk j \<in> outs \<longrightarrow> chk j = out j)"

definition stepped ::
  "('j \<Rightarrow> string) \<Rightarrow> ('j \<Rightarrow> world \<Rightarrow> error + world) \<Rightarrow> ('j \<Rightarrow> line list) \<Rightarrow> 'j \<Rightarrow> world \<Rightarrow> world
     \<Rightarrow> bool" where
  "stepped chk act skip j st st1 \<longleftrightarrow>
     (if path_exists st (chk j) then act j st = Inr st1 else st1 = prints st (skip j))"

text \<open>The items of the circular icon generator: a density, its size, the variant.\<close>

definition mipmap_dir :: "string \<Rightarrow> string" where
  "mipmap_dir density = path_join BASE_PATH (''mipmap-'' @ density)"

definition icon_path :: "string \<Rightarrow> bool \<Rightarrow> string" where
  "icon_path density is_round =
     path_join (mipmap_dir density) (if is_round then ''ic_launcher_round.png'' else ''ic_launcher.png'')"

definition circular_jobs :: "(string \<times> nat) list \<Rightarrow> (string \<times> nat \<times> bool) list" where
  "circular_jobs table = concat (map (\<lambda>(density, sz). [(density, sz, False), (density, sz, True)]) table)"

definition circular_chk :: "string \<times> nat \<times> bool \<Rightarrow> string" where
  "circular_chk j = (case j of (density, sz, is_round) \<Rightarrow> mipmap_dir density)"

definition circular_out :: "string \<times> nat \<times> bool \<Rightarrow> string" where
  "circular_out j = (case j of (density, sz, is_round) \<Rightarrow> icon_path density is_round)"

definition circular_act :: "imaging \<Rightarrow> string \<Rightarrow> string \<times> nat \<times> bool \<Rightarrow> world \<Rightarrow> error + world" where
  "circular_act lib source j =
     (case j of (density, sz, is_round) \<Rightarrow>
        create_circular_icon lib source (icon_path density is_round) sz is_round)"

definition circular_skip :: "string \<times> nat \<times> bool \<Rightarrow> line list" where
  "circular_skip j =
     (case j of (density, sz, is_round) \<Rightarrow>
        if is_round then [] else [Warning_not_found (mipmap_dir density)])"

text \<open>The items of the splash logo generator: a density, its size, dark mode or not.\<close>

definition drawable_dir :: "string \<Rightarrow> bool \<Rightarrow> string" where
  "drawable_dir density dark =
     path_join BASE_PATH ((if dark then ''drawable-night-'' else ''drawable-'') @ density)"

definition splash_path :: "string \<Rightarrow> bool \<Rightarrow> string" where
  "splash_path density dark = path_join (drawable_dir density dark) ''splashscreen_logo.png''"

definition splash_jobs :: "(string \<times> nat) list \<Rightarrow> (string \<times> nat \<times> bool) list" where
  "splash_jobs table = concat (map (\<lambda>(density, sz). [(density, sz, False), (density, sz, True)]) table)"

definition splash_chk :: "string \<times> nat \<times> bool \<Rightarrow> string" where
  "splash_chk j = (case j of (density, sz, dark) \<Rightarrow> drawable_dir density dark)"

definition splash_out :: "string \<times> nat \<times> bool \<Rightarrow> string" where
  "splash_out j = (case j of (density, sz, dark) \<Rightarrow> splash_path density dark)"

definition splash_act :: "imaging \<Rightarrow> string \<Rightarrow> string \<times> nat \<times> bool \<Rightarrow> world \<Rightarrow> error + world" where
  "splash_act lib source j =
     (case j of (density, sz, dark) \<Rightarrow> generate_splash_logo lib source (splash_path density dark) sz)"

definition splash_skip :: "string \<times> nat \<times> bool \<Rightarrow> line list" where
  "splash_skip j = (case j of (density, sz, dark) \<Rightarrow> [Warning_not_found (drawable_dir density dark)])"

text \<open>The items of the icon upscaler: a density, its size, the round file or not.\<close>

definition scale_jobs :: "(string \<times> nat) list \<Rightarrow> (string \<times> nat \<times> bool) list" where
  "scale_jobs table = concat (map (\<lambda>(density, sz). [(density, sz, False), (density, sz, True)]) table)"

definition scale_act :: "imaging \<Rightarrow> string \<times> nat \<times> bool \<Rightarrow> world \<Rightarrow> error + world" where
  "scale_act lib j =
     (case j of (density, sz, is_round) \<Rightarrow>
        scale_icon lib (icon_path density is_round) (icon_path density is_round) sz)"

definition scale_skip :: "string \<times> nat \<times> bool \<Rightarrow> line list" where
  "scale_skip j = (case j of (density, sz, is_round) \<Rightarrow> [Warning_not_found (icon_path density is_round)])"

text \<open>
  For each script: the line an item prints when it is processed, the set of all
  output paths, and what a run needs in order to meet no failure of the library or
  of the file system (the source can be read where it is read, what exists at a
  directory's path is a directory, no directory stands at an output path).
\<close>

definition circular_msg :: "string \<times> nat \<times> bool \<Rightarrow> line" where
  "circular_msg j =
     (case j of (density, sz, is_round) \<Rightarrow>
        Created_circular_icon (if is_round then ''round'' else ''standard'')
          (basename (dirname (icon_path density is_round))) sz)"

definition circular_outs :: "string set" where
  "circular_outs = circular_out ` set (circular_jobs ICON_SIZES)"

definition circular_ready :: "imaging \<Rightarrow> string \<Rightarrow> world \<Rightarrow> bool" where
  "circular_ready lib source st \<longleftrightarrow>
     (\<forall>(density, sz) \<in> set ICON_SIZES. path_exists st (mipmap_dir density) \<longrightarrow>
        (\<exists>logo. Image_open lib st source = Inr logo) \<and>
        files st (mipmap_dir density) = Some Dir \<and>
        (\<forall>is_round. files st (icon_path density is_round) \<noteq> Some Dir))"

definition splash_msg :: "string \<times> nat \<times> bool \<Rightarrow> line" where
  "splash_msg j =
     (case j of (density, sz, dark) \<Rightarrow>
        Generated_splash_logo (basename (dirname (splash_path density dark))) sz)"

definition splash_outs :: "string set" where
  "splash_outs = splash_out ` set (splash_jobs SPLASH_SIZES)"

definition splash_ready :: "imaging \<Rightarrow> string \<Rightarrow> world \<Rightarrow> bool" where
  "splash_ready lib source st \<longleftrightarrow>
     (\<forall>(density, sz) \<in> set SPLASH_SIZES. \<forall>dark. path_exists st (drawable_dir density dark) \<longrightarrow>
        (\<exists>img. Image_open lib st source = Inr img) \<and>
        files st (drawable_dir density dark) = Some Dir \<and>
        files st (splash_path density dark) \<noteq> Some Dir)"

definition scale_msg :: "string \<times> nat \<times> bool \<Rightarrow> line" where
  "scale_msg j = (case j of (density, sz, is_round) \<Rightarrow> Scaled (basename (icon_path density is_round)) sz)"

definition scale_ready :: "imaging \<Rightarrow> world \<Rightarrow> bool" where
  "scale_ready lib st \<longleftrightarrow>
     (\<forall>(density, sz) \<in> set DENSITIES. \<forall>is_round. path_exists st (icon_path density is_round) \<longrightarrow>
        (\<exists>img. Image_open lib st (icon_path density is_round) = Inr img) \<and>
        files st (mipmap_dir density) = Some Dir)"

text \<open>
  The fixed lines each \<open>main\<close> prints before and after its loop, under a name; they
  are all \<open>Info\<close> lines.
\<close>

definition all_info :: "line list \<Rightarrow> bool" where
  "all_info ls \<longleftrightarrow> list_all (\<lambda>l. case l of Info t \<Rightarrow> True | _ \<Rightarrow> False) ls"

definition circular_banner :: "line list" where
  "circular_banner =
     [Info ''Creating circular Android icons with black background...'',
      Info ''Icon specifications:'',
      Info ''   - Black circular background'',
      Info ''   - White RUNSTR logo at 60% scale (fits within 66% safe zone)'',
      Info ''   - Transparent corners for adaptive icon system'']"

definition circular_footer :: "line list" where
  "circular_footer =
     [Info ''All circular Android icons created successfully!'',
      Info ''Benefits:'',
      Info ''   - Logo perfectly fits Android's circular adaptive icon mask'',
      Info ''   - Black background matches your dark theme'',
      Info ''   - No white corners showing through'',
      Info ''   - Professional appearance on all Android launchers'',
      Info ''Rebuild the Android app to see the circular RUNSTR logo.'']"

definition splash_banner :: "line list" where
  "splash_banner = [Info ''Generating Android splash screen logos from RUNSTR logo...'']"

definition splash_footer :: "line list" where
  "splash_footer =
     [Info ''All splash screen logos generated successfully!'',
      Info ''The splash screen will now show the full RUNSTR logo on a black background.'',
      Info ''Rebuild the Android app to see the updated splash screen.'']"

definition scale_banner :: "line list" where
  "scale_banner = [Info ''Scaling Android app icons to make RUNSTR logo larger...'']"

definition scale_footer :: "line list" where
  "scale_footer =
     [Info ''All Android icons scaled successfully!'',
      Info ''Rebuild the Android app to see the larger RUNSTR logo.'']"

text \<open>The lines a run has printed: the console of the end without the console of the start.\<close>

definition printed :: "world \<Rightarrow> world \<Rightarrow> line list" where
  "printed st st' = drop (length (console st)) (console st')"

section \<open>A reference imaging library\<close>

text \<open>
  One concrete value of the library's parameters, on which the theorems are run:
  nearest-neighbour resampling, the ellipse as the set of pixels whose centre lies
  within the ellipse through the middles of the bounding box's sides, and a
  lossless byte format (sizes and lengths in unary, four bytes a pixel).
\<close>

definition nearest :: "pixel image \<Rightarrow> nat \<Rightarrow> nat \<Rightarrow> nat \<Rightarrow> nat \<Rightarrow> pixel" where
  "nearest src w h x y = getpixel src (x * width src div w) (y * height src div h)"

definition ideal_ellipse :: "int \<times> int \<times> int \<times> int \<Rightarrow> int \<times> int \<Rightarrow> bool" where
  "ideal_ellipse bbox p =
     (case bbox of (x0, y0, x1, y1) \<Rightarrow> case p of (x, y) \<Rightarrow>
        x0 \<le> x \<and> x \<le> x1 \<and> y0 \<le> y \<and> y \<le> y1 \<and>
        (2 * x - x0 - x1)\<^sup>2 * (y1 - y0)\<^sup>2 + (2 * y - y0 - y1)\<^sup>2 * (x1 - x0)\<^sup>2
          \<le> (x1 - x0)\<^sup>2 * (y1 - y0)\<^sup>2)"

definition enc_nat :: "nat \<Rightarrow> byte list" where
  "enc_nat n = replicate n 1 @ [0]"

fun dec_nat :: "byte list \<Rightarrow> (nat \<times> byte list) option" where
  "dec_nat [] = None"
| "dec_nat (b # bs) =
     (if b = 0 then Some (0, bs) else map_option (\<lambda>(n, rest). (Suc n, rest)) (dec_nat bs))"

definition pixel_bytes :: "pixel \<Rightarrow> byte list" where
  "pixel_bytes p = [red p, green p, blue p, alpha p]"

definition enc_row :: "pixel list \<Rightarrow> byte list" where
  "enc_row r = enc_nat (length r) @ concat (map pixel_bytes r)"

fun dec_pixels :: "nat \<Rightarrow> byte list \<Rightarrow> (pixel list \<times> byte list) option" where
  "dec_pixels 0 bs = Some ([], bs)"
| "dec_pixels (Suc k) (r # g # b # a # bs) =
     map_option (\<lambda>(ps, rest). (RGBA r g b a # ps, rest)) (dec_pixels k bs)"
| "dec_pixels (Suc k) bs = None"

definition dec_row :: "byte list \<Rightarrow> (pixel list \<times> byte list) option" where
  "dec_row bs = (case dec_nat bs of None \<Rightarrow> None | Some (k, rest) \<Rightarrow> dec_pixels k rest)"

definition enc_rows :: "pixel list list \<Rightarrow> byte list" where
  "enc_rows rs = enc_nat (length rs) @ concat (map enc_row rs)"

fun dec_rows :: "nat \<Rightarrow> byte list \<Rightarrow> (pixel list list \<times> byte list) option" where
  "dec_rows 0 bs = Some ([], bs)"
| "dec_rows (Suc k) bs =
     (case dec_row bs of
        None \<Rightarrow> None
      | Some (r, rest) \<Rightarrow> map_option (\<lambda>(rs, rest'). (r # rs, rest')) (dec_rows k rest))"

definition ref_encode :: "pixel image \<Rightarrow> byte list" where
  "ref_encode img = enc_nat (width img) @ enc_nat (height img) @ enc_rows (rows img)"

definition ref_decode :: "byte list \<Rightarrow> pixel image option" where
  "ref_decode bs =
     (case dec_nat bs of
        None \<Rightarrow> None
      | Some (w, bs1) \<Rightarrow>
          (case dec_nat bs1 of
             None \<Rightarrow> None
           | Some (h, bs2) \<Rightarrow>
               (case dec_nat bs2 of
                  None \<Rightarrow> None
                | Some (k, bs3) \<Rightarrow>
                    (case dec_rows k bs3 of
                       None \<Rightarrow> None
                     | Some (rs, rest) \<Rightarrow>
                         if rest = [] then Some \<lparr>width = w, height = h, rows = rs\<rparr> else None))))"

definition ref_lib :: imaging where
  "ref_lib = \<lparr>decode = ref_decode, encode = ref_encode, lanczos = nearest, ellipse = ideal_ellipse\<rparr>"

text \<open>A one-pixel opaque white logo.\<close>

definition white_logo :: "pixel image" where
  "white_logo = \<lparr>width = 1, height = 1, rows = [[RGBA 255 255 255 255]]\<rparr>"

text \<open>
  Two properties of an imaging library that the lemmas on the upscaler assume. A
  resampling filter whose weights sum to one gives a constant channel back: where
  every pixel of the source has the alpha value \<open>a\<close>, so has every pixel of the
  resized image. A lossless file format gives back, on reading, the image saved.
\<close>

definition alpha_preserving :: "imaging \<Rightarrow> bool" where
  "alpha_preserving lib \<longleftrightarrow>
     (\<forall>src w h a. 0 < width src \<and> 0 < height src \<and>
        (\<forall>x < width src. \<forall>y < height src. alpha (getpixel src x y) = a) \<longrightarrow>
        (\<forall>x < w. \<forall>y < h. alpha (lanczos lib src w h x y) = a))"

definition lossless :: "imaging \<Rightarrow> bool" where
  "lossless lib \<longleftrightarrow> (\<forall>img. decode lib (encode lib img) = Some img)"

text \<open>
  The pixel at \<open>(x, y)\<close> of the image read back from the file \<open>p\<close> after a call or a
  run, if the call returned and the file holds an image.
\<close>

definition saved_pixel :: "imaging \<Rightarrow> error + world \<Rightarrow> string \<Rightarrow> nat \<Rightarrow> nat \<Rightarrow> pixel option" where
  "saved_pixel lib res p x y =
     (case res of
        Inl e \<Rightarrow> None
      | Inr st' \<Rightarrow>
          (case files st' p of
             Some (File bs) \<Rightarrow> (case decode lib bs of None \<Rightarrow> None | Some img \<Rightarrow> Some (getpixel img x y))
           | _ \<Rightarrow> None))"



text \<open>
  A world to run the scripts in: both source logos, the launcher directories of two
  densities with one icon in the first, and three of the ten splash directories.
\<close>

definition demo_home :: string where
  "demo_home = ''/home/dev''"

definition demo_world :: world where
  "demo_world =
     \<lparr>files = map_of
        [(''/home/dev/Desktop/RUNSTR LOGO FINAL/expo/icon.png'', File (ref_encode white_logo)),
         (''/home/dev/Desktop/RUNSTR LOGO FINAL/expo/splash-icon.png'', File (ref_encode white_logo)),
         (''android/app/src/main/res/mipmap-mdpi'', Dir),
         (''android/app/src/main/res/mipmap-mdpi/ic_launcher.png'', File (ref_encode white_logo)),
         (''android/app/src/main/res/mipmap-xxxhdpi'', Dir),
         (''android/app/src/main/res/drawable-mdpi'', Dir),
         (''android/app/src/main/res/drawable-night-mdpi'', Dir),
         (''android/app/src/main/res/drawable-hdpi'', Dir)],
      console = []\<rparr>"

section \<open>Lemmas on images\<close>

lemma width_raster [simp]: "width (raster w h f) = w"
  and height_raster [simp]: "height (raster w h f) = h"
  by (simp_all add: raster_def)

lemma getpixel_raster [simp]: "x < w \<Longrightarrow> y < h \<Longrightarrow> getpixel (raster w h f) x y = f x y"
  by (simp add: raster_def getpixel_def)

lemma raster_cong: "(\<And>x y. x < w \<Longrightarrow> y < h \<Longrightarrow> f x y = g x y) \<Longrightarrow> raster w h f = raster w h g"
  by (simp add: raster_def)

lemma square_raster [simp]: "square (raster n n f) n"
  by (simp add: square_def raster_def list_all_iff)

lemma Image_new_raster: "Image_new w h c = raster w h (\<lambda>x y. c)"
  by (simp add: Image_new_def raster_def map_replicate_const)

lemma width_alpha_band [simp]: "width (alpha_band img) = width img"
  and height_alpha_band [simp]: "height (alpha_band img) = height img"
  by (simp_all add: alpha_band_def)

lemma getpixel_alpha_band_raster [simp]:
  "x < w \<Longrightarrow> y < h \<Longrightarrow> getpixel (alpha_band (raster w h f)) x y = alpha (f x y)"
  by (simp add: alpha_band_def raster_def getpixel_def)

lemma div255_mult: "n < 256 \<Longrightarrow> div255 (n * 255) = n"
proof -
  assume n: "n < 256"
  have q: "(n * 255 + 128) div 256 = (if n \<le> 128 then n else n - 1)"
    using n by (simp split: if_splits; arith)
  have "((if n \<le> 128 then n else n - 1) + (n * 255 + 128)) div 256 = n"
    using n by (simp split: if_splits; arith)
  then show ?thesis by (simp add: div255_def Let_def q)
qed

lemma blend_0 [simp]: "blend 0 p q = p"
proof -
  have "unat p < 256" using unsigned_less [of p, where ?'a = nat] by simp
  then show ?thesis by (simp add: blend_def div255_mult)
qed

lemma blend_255 [simp]: "blend 255 p q = q"
proof -
  have "unat q < 256" using unsigned_less [of q, where ?'a = nat] by simp
  then show ?thesis by (simp add: blend_def div255_mult)
qed

lemma blend_pixel_0 [simp]: "blend_pixel 0 p q = p"
  by (simp add: blend_pixel_def)

lemma blend_pixel_255 [simp]: "blend_pixel 255 p q = q"
  by (simp add: blend_pixel_def)

lemma logo_size_eq: "nat (py_int (of_nat sz * LOGO_SCALE)) = spec_logo_edge sz"
proof -
  have "(of_nat sz :: rat) * (72 / 100) = of_nat (sz * 72) / of_nat 100" by simp
  then have "\<lfloor>(of_nat sz :: rat) * (72 / 100)\<rfloor> = int (sz * 72 div 100)"
    by (simp only: floor_divide_of_nat_eq)
  then show ?thesis by (simp add: py_int_def LOGO_SCALE_def spec_logo_edge_def)
qed

lemma new_size_eq: "nat (py_int (of_nat n * SCALE_FACTOR)) = 2 * n"
proof -
  have "(of_nat n :: rat) * 2 = of_nat (2 * n)" by simp
  then have "\<lfloor>(of_nat n :: rat) * 2\<rfloor> = int (2 * n)"
    by (simp only: floor_of_nat)
  then show ?thesis by (simp add: py_int_def SCALE_FACTOR_def)
qed

lemma logo_edge_le: "spec_logo_edge sz \<le> sz"
  by (simp add: spec_logo_edge_def)

subsection \<open>What the scripts compute is what the specification describes\<close>

lemma canvas_background:
  "draw_ellipse lib (Image_new sz sz (RGBA 0 0 0 0)) (0, 0, int sz - 1, int sz - 1) (RGBA 0 0 0 255)
   = raster sz sz (spec_background lib sz)"
  unfolding draw_ellipse_def Image_new_raster width_raster height_raster
  by (rule raster_cong) (simp add: spec_background_def)

lemma canvas_composite:
  "paste (raster sz sz (spec_background lib sz))
     (raster (spec_logo_edge sz) (spec_logo_edge sz) (lanczos lib logo (spec_logo_edge sz) (spec_logo_edge sz)))
     ((int sz - int (spec_logo_edge sz)) div 2, (int sz - int (spec_logo_edge sz)) div 2)
     (alpha_band (raster (spec_logo_edge sz) (spec_logo_edge sz)
        (lanczos lib logo (spec_logo_edge sz) (spec_logo_edge sz))))
   = raster sz sz (spec_composite lib logo sz)"
proof -
  define n where "n = spec_logo_edge sz"
  define off where "off = (sz - n) div 2"
  have le: "n \<le> sz" using logo_edge_le by (simp add: n_def)
  then have off: "(int sz - int n) div 2 = int off"
    by (simp add: off_def of_nat_diff zdiv_int)
  have "paste (raster sz sz (spec_background lib sz)) (raster n n (lanczos lib logo n n))
          (int off, int off) (alpha_band (raster n n (lanczos lib logo n n)))
        = raster sz sz (spec_composite lib logo sz)"
    unfolding paste_def width_raster height_raster fst_conv snd_conv
  proof (rule raster_cong)
    fix x y assume xy: "x < sz" "y < sz"
    show "(let sx = int x - int off; sy = int y - int off
           in if 0 \<le> sx \<and> sx < int n \<and> 0 \<le> sy \<and> sy < int n
              then blend_pixel (getpixel (alpha_band (raster n n (lanczos lib logo n n))) (nat sx) (nat sy))
                     (getpixel (raster sz sz (spec_background lib sz)) x y)
                     (getpixel (raster n n (lanczos lib logo n n)) (nat sx) (nat sy))
              else getpixel (raster sz sz (spec_background lib sz)) x y)
          = spec_composite lib logo sz x y"
    proof -
      have e: "(0 \<le> int x - int off \<and> int x - int off < int n \<and> 0 \<le> int y - int off \<and> int y - int off < int n)
               = (off \<le> x \<and> x < off + n \<and> off \<le> y \<and> y < off + n)"
        by auto
      have bg: "getpixel (raster sz sz (spec_background lib sz)) x y = spec_background lib sz x y"
        using xy by simp
      have sc: "spec_composite lib logo sz x y =
                  (if off \<le> x \<and> x < off + n \<and> off \<le> y \<and> y < off + n
                   then blend_pixel (alpha (lanczos lib logo n n (x - off) (y - off)))
                          (spec_background lib sz x y) (lanczos lib logo n n (x - off) (y - off))
                   else spec_background lib sz x y)"
        by (simp add: spec_composite_def Let_def n_def [symmetric] off_def [symmetric])
      show ?thesis
        unfolding Let_def e bg sc
      proof (cases "off \<le> x \<and> x < off + n \<and> off \<le> y \<and> y < off + n")
        case True
        then have c: "nat (int x - int off) = x - off" "nat (int y - int off) = y - off"
          and d: "x - off < n" "y - off < n"
          by auto
        show "(if off \<le> x \<and> x < off + n \<and> off \<le> y \<and> y < off + n
               then blend_pixel (getpixel (alpha_band (raster n n (lanczos lib logo n n)))
                                   (nat (int x - int off)) (nat (int y - int off)))
                      (spec_background lib sz x y)
                      (getpixel (raster n n (lanczos lib logo n n)) (nat (int x - int off)) (nat (int y - int off)))
               else spec_background lib sz x y)
              = (if off \<le> x \<and> x < off + n \<and> off \<le> y \<and> y < off + n
                 then blend_pixel (alpha (lanczos lib logo n n (x - off) (y - off)))
                        (spec_background lib sz x y) (lanczos lib logo n n (x - off) (y - off))
                 else spec_background lib sz x y)"
          unfolding c using d by simp
      next
        case False
        then show "(if off \<le> x \<and> x < off + n \<and> off \<le> y \<and> y < off + n
               then blend_pixel (getpixel (alpha_band (raster n n (lanczos lib logo n n)))
                                   (nat (int x - int off)) (nat (int y - int off)))
                      (spec_background lib sz x y)
                      (getpixel (raster n n (lanczos lib logo n n)) (nat (int x - int off)) (nat (int y - int off)))
               else spec_background lib sz x y)
              = (if off \<le> x \<and> x < off + n \<and> off \<le> y \<and> y < off + n
                 then blend_pixel (alpha (lanczos lib logo n n (x - off) (y - off)))
                        (spec_background lib sz x y) (lanczos lib logo n n (x - off) (y - off))
                 else spec_background lib sz x y)"
          by (simp only: if_False)
      qed
    qed
  qed
  then show ?thesis by (simp add: off n_def [symmetric])
qed

lemma canvas_round:
  "paste (Image_new sz sz (RGBA 0 0 0 0)) (raster sz sz f) (0, 0)
     (draw_ellipse lib (Image_new sz sz (0 :: byte)) (0, 0, int sz - 1, int sz - 1) 255)
   = raster sz sz (\<lambda>x y. if ellipse lib (0, 0, int sz - 1, int sz - 1) (int x, int y) then f x y else RGBA 0 0 0 0)"
  unfolding paste_def draw_ellipse_def Image_new_raster width_raster height_raster
  by (rule raster_cong) (simp add: Let_def)

lemma create_circular_icon_closed:
  "create_circular_icon lib src outp sz r st =
     (case Image_open lib st src of
        Inl e \<Rightarrow> Inl e
      | Inr logo \<Rightarrow>
          (if spec_logo_edge sz = 0 then Inl ValueError
           else (case save lib st outp (raster sz sz (spec_icon_pixel lib logo sz r)) of
                   Inl e \<Rightarrow> Inl e
                 | Inr st' \<Rightarrow>
                     Inr (print st' (Created_circular_icon (if r then ''round'' else ''standard'')
                                       (basename (dirname outp)) sz)))))"
proof (cases "Image_open lib st src")
  case (Inl e)
  then show ?thesis by (simp add: create_circular_icon_def Let_def)
next
  case (Inr logo)
  have rnd: "raster sz sz (\<lambda>x y. if ellipse lib (0, 0, int sz - 1, int sz - 1) (int x, int y)
                                  then spec_composite lib logo sz x y else RGBA 0 0 0 0)
             = raster sz sz (spec_icon_pixel lib logo sz True)"
    by (rule raster_cong) (simp add: spec_icon_pixel_def)
  have std: "spec_composite lib logo sz = spec_icon_pixel lib logo sz False"
    by (intro ext) (simp add: spec_icon_pixel_def)
  show ?thesis
  proof (cases "spec_logo_edge sz = 0")
    case True
    then show ?thesis using Inr
      by (simp add: create_circular_icon_def Let_def logo_size_eq resize_def)
  next
    case False
    show ?thesis
    proof (cases r)
      case True
      then show ?thesis using Inr False
        by (simp add: create_circular_icon_def Let_def logo_size_eq resize_def canvas_background
            canvas_composite canvas_round rnd split: sum.splits)
    next
      case nr: False
      then show ?thesis using Inr False
        by (simp add: create_circular_icon_def Let_def logo_size_eq resize_def canvas_background
            canvas_composite std split: sum.splits)
    qed
  qed
qed

lemma canvas_upscaled:
  assumes "0 < n"
  shows "paste (Image_new n n (RGBA 0 0 0 0)) (raster (2 * n) (2 * n) (lanczos lib img (2 * n) (2 * n)))
           ((int n - int (2 * n)) div 2, (int n - int (2 * n)) div 2)
           (alpha_band (raster (2 * n) (2 * n) (lanczos lib img (2 * n) (2 * n))))
         = raster n n (spec_upscaled_pixel lib img n)"
proof -
  define k where "k = (n + 1) div 2"
  have off: "(int n - int (2 * n)) div 2 = - int k"
    unfolding k_def by (simp add: zdiv_int)
  have kn: "k \<le> n" using assms unfolding k_def by linarith
  show ?thesis
    unfolding paste_def off Image_new_raster width_raster height_raster fst_conv snd_conv
  proof (rule raster_cong)
    fix x y assume xy: "x < n" "y < n"
    have c: "int x - - int k = int (x + k)" "int y - - int k = int (y + k)" by simp_all
    have d: "x + k < 2 * n" "y + k < 2 * n" using xy kn by simp_all
    show "(let sx = int x - - int k; sy = int y - - int k
           in if 0 \<le> sx \<and> sx < int (2 * n) \<and> 0 \<le> sy \<and> sy < int (2 * n)
              then blend_pixel
                     (getpixel (alpha_band (raster (2 * n) (2 * n) (lanczos lib img (2 * n) (2 * n)))) (nat sx) (nat sy))
                     (getpixel (raster n n (\<lambda>x y. RGBA 0 0 0 0)) x y)
                     (getpixel (raster (2 * n) (2 * n) (lanczos lib img (2 * n) (2 * n))) (nat sx) (nat sy))
              else getpixel (raster n n (\<lambda>x y. RGBA 0 0 0 0)) x y)
          = spec_upscaled_pixel lib img n x y"
      unfolding Let_def c nat_int
      using xy d by (simp add: spec_upscaled_pixel_def Let_def k_def)
  qed
qed

lemma scale_icon_closed:
  "scale_icon lib inp outp n st =
     (case Image_open lib st inp of
        Inl e \<Rightarrow> Inl e
      | Inr img \<Rightarrow>
          (if n = 0 then Inl ValueError
           else (case save lib st outp (raster n n (spec_upscaled_pixel lib img n)) of
                   Inl e \<Rightarrow> Inl e
                 | Inr st' \<Rightarrow> Inr (print st' (Scaled (basename inp) n)))))"
proof -
  have unf: "scale_icon lib inp outp n st =
     (case Image_open lib st inp of
        Inl e \<Rightarrow> Inl e
      | Inr img \<Rightarrow>
          (case resize lib img (2 * n) (2 * n) of
             Inl e \<Rightarrow> Inl e
           | Inr img_scaled \<Rightarrow>
               (case save lib st outp
                       (paste (Image_new n n (RGBA 0 0 0 0)) img_scaled
                          ((int n - int (2 * n)) div 2, (int n - int (2 * n)) div 2) (alpha_band img_scaled)) of
                  Inl e \<Rightarrow> Inl e
                | Inr st' \<Rightarrow> Inr (print st' (Scaled (basename inp) n)))))"
    unfolding scale_icon_def new_size_eq Let_def ..
  show ?thesis
  proof (cases "n = 0")
    case True
    then show ?thesis unfolding unf by (simp add: resize_def split: sum.splits)
  next
    case False
    then have "0 < n" by simp
    from canvas_upscaled [OF this] show ?thesis
      unfolding unf using False by (simp add: resize_def split: sum.splits)
  qed
qed

lemma generate_splash_logo_closed:
  "generate_splash_logo lib src outp sz st =
     (case Image_open lib st src of
        Inl e \<Rightarrow> Inl e
      | Inr img \<Rightarrow>
          (if sz = 0 then Inl ValueError
           else (case save lib st outp (raster sz sz (lanczos lib img sz sz)) of
                   Inl e \<Rightarrow> Inl e
                 | Inr st' \<Rightarrow> Inr (print st' (Generated_splash_logo (basename (dirname outp)) sz)))))"
  by (simp add: generate_splash_logo_def Let_def resize_def split: sum.splits)

subsection \<open>The reference byte format is lossless\<close>

lemma dec_nat_enc_nat [simp]: "dec_nat (enc_nat n @ rest) = Some (n, rest)"
  by (induction n) (simp_all add: enc_nat_def)

lemma dec_pixels_bytes [simp]: "dec_pixels (length r) (concat (map pixel_bytes r) @ rest) = Some (r, rest)"
  by (induction r) (simp_all add: pixel_bytes_def)

lemma dec_row_enc_row [simp]: "dec_row (enc_row r @ rest) = Some (r, rest)"
  by (simp add: dec_row_def enc_row_def)

lemma dec_rows_enc [simp]: "dec_rows (length rs) (concat (map enc_row rs) @ rest) = Some (rs, rest)"
  by (induction rs) simp_all

lemma ref_decode_encode: "ref_decode (ref_encode img) = Some img"
  using dec_rows_enc [of "rows img" "[]"]
  by (simp add: ref_decode_def ref_encode_def enc_rows_def)

section \<open>What one call writes\<close>

lemma save_Inr:
  assumes "save lib st p img = Inr st'"
  shows "st' = st\<lparr>files := (files st)(p \<mapsto> File (encode lib img))\<rparr>"
    and "files st (dirname p) = Some Dir" and "files st p \<noteq> Some Dir"
  using assms by (auto simp add: save_def split: option.splits entry.splits)

lemma save_ok:
  assumes "files st (dirname p) = Some Dir" and "files st p \<noteq> Some Dir"
  shows "save lib st p img = Inr (st\<lparr>files := (files st)(p \<mapsto> File (encode lib img))\<rparr>)"
  using assms by (auto simp add: save_def split: option.splits entry.splits)

lemma files_print [simp]: "files (print st l) = files st"
  and console_print [simp]: "console (print st l) = console st @ [l]"
  by (simp_all add: print_def)

lemma create_circular_icon_Inr:
  assumes "create_circular_icon lib src outp sz r st = Inr st'"
  shows "\<exists>logo. Image_open lib st src = Inr logo \<and> 0 < spec_logo_edge sz \<and>
           files st (dirname outp) = Some Dir \<and> files st outp \<noteq> Some Dir \<and>
           files st' = (files st)(outp \<mapsto> File (encode lib (raster sz sz (spec_icon_pixel lib logo sz r)))) \<and>
           console st' = console st @
             [Created_circular_icon (if r then ''round'' else ''standard'') (basename (dirname outp)) sz]"
proof -
  from assms obtain logo where lg: "Image_open lib st src = Inr logo"
    by (cases "Image_open lib st src") (simp_all add: create_circular_icon_closed)
  from assms lg have pos: "0 < spec_logo_edge sz"
    by (cases "spec_logo_edge sz = 0") (simp_all add: create_circular_icon_closed)
  from assms lg pos obtain st1 where
    sv: "save lib st outp (raster sz sz (spec_icon_pixel lib logo sz r)) = Inr st1"
    and st': "st' = print st1 (Created_circular_icon (if r then ''round'' else ''standard'')
                                 (basename (dirname outp)) sz)"
    by (cases "save lib st outp (raster sz sz (spec_icon_pixel lib logo sz r))")
       (simp_all add: create_circular_icon_closed)
  from save_Inr [OF sv] lg pos st' show ?thesis by simp
qed

lemma create_circular_icon_ok:
  assumes "Image_open lib st src = Inr logo" and "0 < spec_logo_edge sz"
    and "files st (dirname outp) = Some Dir" and "files st outp \<noteq> Some Dir"
  shows "\<exists>st'. create_circular_icon lib src outp sz r st = Inr st'"
  using assms by (simp add: create_circular_icon_closed save_ok)

lemma generate_splash_logo_Inr:
  assumes "generate_splash_logo lib src outp sz st = Inr st'"
  shows "\<exists>img. Image_open lib st src = Inr img \<and> 0 < sz \<and>
           files st (dirname outp) = Some Dir \<and> files st outp \<noteq> Some Dir \<and>
           files st' = (files st)(outp \<mapsto> File (encode lib (raster sz sz (lanczos lib img sz sz)))) \<and>
           console st' = console st @ [Generated_splash_logo (basename (dirname outp)) sz]"
proof -
  from assms obtain img where lg: "Image_open lib st src = Inr img"
    by (cases "Image_open lib st src") (simp_all add: generate_splash_logo_closed)
  from assms lg have pos: "0 < sz"
    by (cases "sz = 0") (simp_all add: generate_splash_logo_closed)
  from assms lg pos obtain st1 where
    sv: "save lib st outp (raster sz sz (lanczos lib img sz sz)) = Inr st1"
    and st': "st' = print st1 (Generated_splash_logo (basename (dirname outp)) sz)"
    by (cases "save lib st outp (raster sz sz (lanczos lib img sz sz))")
       (simp_all add: generate_splash_logo_closed)
  from save_Inr [OF sv] lg pos st' show ?thesis by simp
qed

lemma generate_splash_logo_ok:
  assumes "Image_open lib st src = Inr img" and "0 < sz"
    and "files st (dirname outp) = Some Dir" and "files st outp \<noteq> Some Dir"
  shows "\<exists>st'. generate_splash_logo lib src outp sz st = Inr st'"
  using assms by (simp add: generate_splash_logo_closed save_ok)

lemma scale_icon_Inr:
  assumes "scale_icon lib inp outp n st = Inr st'"
  shows "\<exists>img. Image_open lib st inp = Inr img \<and> 0 < n \<and>
           files st (dirname outp) = Some Dir \<and> files st outp \<noteq> Some Dir \<and>
           files st' = (files st)(outp \<mapsto> File (encode lib (raster n n (spec_upscaled_pixel lib img n)))) \<and>
           console st' = console st @ [Scaled (basename inp) n]"
proof -
  from assms obtain img where lg: "Image_open lib st inp = Inr img"
    by (cases "Image_open lib st inp") (simp_all add: scale_icon_closed)
  from assms lg have pos: "0 < n"
    by (cases "n = 0") (simp_all add: scale_icon_closed)
  from assms lg pos obtain st1 where
    sv: "save lib st outp (raster n n (spec_upscaled_pixel lib img n)) = Inr st1"
    and st': "st' = print st1 (Scaled (basename inp) n)"
    by (cases "save lib st outp (raster n n (spec_upscaled_pixel lib img n))")
       (simp_all add: scale_icon_closed)
  from save_Inr [OF sv] lg pos st' show ?thesis by simp
qed

lemma scale_icon_ok:
  assumes "Image_open lib st inp = Inr img" and "0 < n"
    and "files st (dirname outp) = Some Dir" and "files st outp \<noteq> Some Dir"
  shows "\<exists>st'. scale_icon lib inp outp n st = Inr st'"
  using assms by (simp add: scale_icon_closed save_ok)

subsection \<open>The reference world\<close>

lemma demo_open_icon:
  "Image_open ref_lib demo_world ''/home/dev/Desktop/RUNSTR LOGO FINAL/expo/icon.png'' = Inr white_logo"
  by (simp add: Image_open_def demo_world_def ref_lib_def ref_decode_encode)

lemma demo_open_splash:
  "Image_open ref_lib demo_world ''/home/dev/Desktop/RUNSTR LOGO FINAL/expo/splash-icon.png'' = Inr white_logo"
  by (simp add: Image_open_def demo_world_def ref_lib_def ref_decode_encode)

lemma demo_open_launcher:
  "Image_open ref_lib demo_world ''android/app/src/main/res/mipmap-mdpi/ic_launcher.png'' = Inr white_logo"
  by (simp add: Image_open_def demo_world_def ref_lib_def ref_decode_encode)

lemma dirname_mdpi_launcher:
  "dirname ''android/app/src/main/res/mipmap-mdpi/ic_launcher.png'' = ''android/app/src/main/res/mipmap-mdpi''"
  by (simp add: dirname_def rstrip_sep_def)

lemma dirname_mdpi_splash:
  "dirname ''android/app/src/main/res/drawable-mdpi/splashscreen_logo.png'' = ''android/app/src/main/res/drawable-mdpi''"
  by (simp add: dirname_def rstrip_sep_def)

lemma demo_dir_xxxhdpi:
  "files demo_world (dirname ''android/app/src/main/res/mipmap-xxxhdpi/ic_launcher.png'') = Some Dir"
  "files demo_world ''android/app/src/main/res/mipmap-xxxhdpi/ic_launcher.png'' \<noteq> Some Dir"
  "files demo_world (dirname ''android/app/src/main/res/mipmap-xxxhdpi/ic_launcher_round.png'') = Some Dir"
  "files demo_world ''android/app/src/main/res/mipmap-xxxhdpi/ic_launcher_round.png'' \<noteq> Some Dir"
  by (simp_all add: dirname_def rstrip_sep_def demo_world_def)

lemma demo_dir_mdpi:
  "files demo_world (dirname ''android/app/src/main/res/mipmap-mdpi/ic_launcher.png'') = Some Dir"
  "files demo_world ''android/app/src/main/res/mipmap-mdpi/ic_launcher.png'' \<noteq> Some Dir"
  "files demo_world (dirname ''android/app/src/main/res/mipmap-mdpi/ic_launcher_round.png'') = Some Dir"
  "files demo_world ''android/app/src/main/res/mipmap-mdpi/ic_launcher_round.png'' \<noteq> Some Dir"
  by (simp_all add: dirname_def rstrip_sep_def demo_world_def)

lemma saved_pixel_create:
  assumes "Image_open lib st src = Inr logo" and "0 < spec_logo_edge sz"
    and "files st (dirname outp) = Some Dir" and "files st outp \<noteq> Some Dir"
    and "decode lib (encode lib (raster sz sz (spec_icon_pixel lib logo sz r)))
           = Some (raster sz sz (spec_icon_pixel lib logo sz r))"
    and "x < sz" and "y < sz"
  shows "saved_pixel lib (create_circular_icon lib src outp sz r st) outp x y
           = Some (spec_icon_pixel lib logo sz r x y)"
  using assms by (simp add: saved_pixel_def create_circular_icon_closed save_ok)

lemma getpixel_white_logo [simp]: "getpixel white_logo 0 0 = RGBA 255 255 255 255"
  by (simp add: getpixel_def white_logo_def)


lemma ref_lib_alpha_preserving: "alpha_preserving ref_lib"
  unfolding alpha_preserving_def
proof (intro allI impI, elim conjE)
  fix src :: "pixel image" and w h x y :: nat and a :: byte
  assume pos: "0 < width src" "0 < height src"
    and u: "\<forall>x < width src. \<forall>y < height src. alpha (getpixel src x y) = a"
    and xy: "x < w" "y < h"
  have "x * width src < w * width src" using xy pos by simp
  then have x': "x * width src div w < width src"
    using xy by (simp add: less_mult_imp_div_less mult.commute)
  have "y * height src < h * height src" using xy pos by simp
  then have y': "y * height src div h < height src"
    using xy by (simp add: less_mult_imp_div_less mult.commute)
  from u x' y' show "alpha (lanczos ref_lib src w h x y) = a"
    by (simp add: ref_lib_def nearest_def)
qed

subsection \<open>Pixels of the compositions\<close>

lemma blend_self_0 [simp]: "blend 0 0 0 = 0" by simp

lemma spec_composite_outside_circle:
  assumes "\<not> ellipse lib (0, 0, int sz - 1, int sz - 1) (int x, int y)"
  shows "spec_composite lib logo sz x y =
     (let n = spec_logo_edge sz; off = (sz - n) div 2
      in if off \<le> x \<and> x < off + n \<and> off \<le> y \<and> y < off + n
         then blend_pixel (alpha (lanczos lib logo n n (x - off) (y - off))) (RGBA 0 0 0 0)
                (lanczos lib logo n n (x - off) (y - off))
         else RGBA 0 0 0 0)"
  using assms by (simp add: spec_composite_def spec_background_def Let_def)

lemma blend_half: "blend 128 0 128 = 64" "blend 64 0 64 = 16"
  by (simp_all add: blend_def div255_def)

lemma encode_inj:
  assumes "\<forall>img. decode lib (encode lib img) = Some img"
  shows "encode lib a = encode lib b \<Longrightarrow> a = b"
  using assms by (metis option.inject)

lemma Image_open_encoded:
  assumes "files st p = Some (File (encode lib img))" and "decode lib (encode lib img) = Some img"
  shows "Image_open lib st p = Inr img"
  using assms by (simp add: Image_open_def)

lemma upscaled_alpha:
  assumes ap: "alpha_preserving lib" and n: "0 < n"
    and u: "\<forall>x < n. \<forall>y < n. alpha (f x y) = a" and xy: "x < n" "y < n"
  shows "alpha (spec_upscaled_pixel lib (raster n n f) n x y) = blend a 0 a"
proof -
  have k: "x + (n + 1) div 2 < 2 * n" "y + (n + 1) div 2 < 2 * n" using xy n by linarith+
  have "\<forall>x < width (raster n n f). \<forall>y < height (raster n n f). alpha (getpixel (raster n n f) x y) = a"
    using u by simp
  with ap n have "\<forall>x < 2 * n. \<forall>y < 2 * n. alpha (lanczos lib (raster n n f) (2 * n) (2 * n) x y) = a"
    unfolding alpha_preserving_def by (metis width_raster height_raster)
  with k have "alpha (lanczos lib (raster n n f) (2 * n) (2 * n) (x + (n + 1) div 2) (y + (n + 1) div 2)) = a"
    by blast
  then show ?thesis by (simp add: spec_upscaled_pixel_def Let_def blend_pixel_def)
qed

subsection \<open>Printing changes no file\<close>

lemma console_prints [simp]: "console (prints st ls) = console st @ ls"
  by (induction ls arbitrary: st) simp_all

lemma files_prints [simp]: "files (prints st ls) = files st"
  by (induction ls arbitrary: st) simp_all

lemma path_exists_print [simp]: "path_exists (print st l) p = path_exists st p"
  by (simp add: path_exists_def)

lemma path_exists_prints [simp]: "path_exists (prints st ls) p = path_exists st p"
  by (simp add: path_exists_def)

section \<open>The loop over the items\<close>

lemma writes_only_Cons: "writes_only act out msg (j # js) \<Longrightarrow> writes_only act out msg js"
  by (simp add: writes_only_def)

lemma apart_Cons:
  assumes "apart chk out outs (j # js)"
  shows "apart chk out outs js" and "out j \<notin> out ` set js" and "out j \<in> outs"
    and "\<And>j'. j' \<in> set (j # js) \<Longrightarrow> chk j' = out j \<Longrightarrow> chk j = out j"
proof -
  show "apart chk out outs js" and "out j \<notin> out ` set js" and o: "out j \<in> outs"
    using assms by (auto simp add: apart_def)
  fix j' assume j': "j' \<in> set (j # js)" and c: "chk j' = out j"
  from assms j' c o have "chk j' = out j'" by (simp add: apart_def) metis
  with c have "out j' = out j" by simp
  with \<open>out j \<notin> out ` set js\<close> j' have "j' = j" by (metis imageI set_ConsD)
  with c show "chk j = out j" by simp
qed

lemma run_jobs_step:
  assumes "run_jobs chk act skip (j # js) st = Inr st'"
  shows "\<exists>st1. run_jobs chk act skip js st1 = Inr st' \<and> stepped chk act skip j st st1"
  using assms by (auto simp add: stepped_def split: sum.splits if_splits)

lemma step_files:
  assumes w: "writes_only act out msg (j # js)" and a: "apart chk out outs (j # js)"
    and s: "stepped chk act skip j st st1"
  shows "\<And>p. p \<noteq> out j \<Longrightarrow> files st1 p = files st p"
    and "\<not> path_exists st (chk j) \<Longrightarrow> files st1 = files st"
    and "\<And>j'. j' \<in> set (j # js) \<Longrightarrow> path_exists st1 (chk j') = path_exists st (chk j')"
    and "console st1 = console st @ (if path_exists st (chk j) then [msg j] else skip j)"
proof -
  have s1: "path_exists st (chk j) \<Longrightarrow> act j st = Inr st1"
    and s2: "\<not> path_exists st (chk j) \<Longrightarrow> st1 = prints st (skip j)"
    using s by (simp_all add: stepped_def)
  have ex: "path_exists st (chk j) \<Longrightarrow> (\<exists>bs. files st1 = (files st)(out j \<mapsto> File bs)) \<and>
              console st1 = console st @ [msg j]"
    using w s1 by (simp add: writes_only_def)
  show f: "\<And>p. p \<noteq> out j \<Longrightarrow> files st1 p = files st p"
  proof -
    fix p assume "p \<noteq> out j"
    then show "files st1 p = files st p"
      using ex s2 by (cases "path_exists st (chk j)") auto
  qed
  show "\<not> path_exists st (chk j) \<Longrightarrow> files st1 = files st" using s2 by simp
  show "\<And>j'. j' \<in> set (j # js) \<Longrightarrow> path_exists st1 (chk j') = path_exists st (chk j')"
  proof -
    fix j' assume j': "j' \<in> set (j # js)"
    show "path_exists st1 (chk j') = path_exists st (chk j')"
    proof (cases "chk j' = out j")
      case False
      then show ?thesis using f by (simp add: path_exists_def)
    next
      case True
      then have own: "chk j = out j" using apart_Cons(4) [OF a j'] by simp
      show ?thesis
      proof (cases "path_exists st (chk j)")
        case e: True
        then obtain bs where "files st1 = (files st)(out j \<mapsto> File bs)" using ex by blast
        then have "path_exists st1 (out j)" by (simp add: path_exists_def)
        then show ?thesis using e own True by simp
      next
        case False
        then show ?thesis using s2 by (simp add: path_exists_def)
      qed
    qed
  qed
  show "console st1 = console st @ (if path_exists st (chk j) then [msg j] else skip j)"
    using ex s2 by (cases "path_exists st (chk j)") auto
qed

text \<open>The run changes no file but the outputs of the items whose path exists.\<close>

lemma run_jobs_frame:
  assumes "run_jobs chk act skip js st = Inr st'"
    and "writes_only act out msg js" and "apart chk out outs js"
    and "p \<notin> out ` {j \<in> set js. path_exists st (chk j)}"
  shows "files st' p = files st p"
  using assms
proof (induction js arbitrary: st)
  case Nil
  then show ?case by simp
next
  case (Cons j js)
  from run_jobs_step [OF Cons.prems(1)] obtain st1 where
    r: "run_jobs chk act skip js st1 = Inr st'" and s: "stepped chk act skip j st st1"
    by blast
  note sf = step_files [OF Cons.prems(2) Cons.prems(3) s]
  have "p \<notin> out ` {j' \<in> set js. path_exists st1 (chk j')}"
    using Cons.prems(4) sf(3) by auto
  then have a: "files st' p = files st1 p"
    using Cons.IH [OF r writes_only_Cons [OF Cons.prems(2)] apart_Cons(1) [OF Cons.prems(3)]] by blast
  show ?case
  proof (cases "path_exists st (chk j)")
    case True
    then have "p \<noteq> out j" using Cons.prems(4) by auto
    then show ?thesis using a sf(1) by simp
  next
    case False
    then show ?thesis using a sf(2) by simp
  qed
qed

text \<open>The lines the run prints, item by item.\<close>

lemma run_jobs_console:
  assumes "run_jobs chk act skip js st = Inr st'"
    and "writes_only act out msg js" and "apart chk out outs js"
  shows "console st' = console st @ concat (map (\<lambda>j. if path_exists st (chk j) then [msg j] else skip j) js)"
  using assms
proof (induction js arbitrary: st)
  case Nil
  then show ?case by simp
next
  case (Cons j js)
  from run_jobs_step [OF Cons.prems(1)] obtain st1 where
    r: "run_jobs chk act skip js st1 = Inr st'" and s: "stepped chk act skip j st st1"
    by blast
  note sf = step_files [OF Cons.prems(2) Cons.prems(3) s]
  have m: "map (\<lambda>j. if path_exists st1 (chk j) then [msg j] else skip j) js
           = map (\<lambda>j. if path_exists st (chk j) then [msg j] else skip j) js"
    using sf(3) by simp
  from Cons.IH [OF r writes_only_Cons [OF Cons.prems(2)] apart_Cons(1) [OF Cons.prems(3)]]
  show ?case unfolding m using sf(4) by simp
qed

text \<open>
  Each item whose path exists was run in a world that differs from the initial one at
  most on the outputs of the other items, and its output is still there at the end.
\<close>

lemma run_jobs_item:
  assumes "run_jobs chk act skip js st = Inr st'"
    and "writes_only act out msg js" and "apart chk out outs js"
    and "j \<in> set js" and "path_exists st (chk j)"
  shows "\<exists>st_a st_b. act j st_a = Inr st_b \<and>
           (\<forall>p. (p \<in> outs \<longrightarrow> p = out j) \<longrightarrow> files st_a p = files st p) \<and>
           files st' (out j) = files st_b (out j)"
  using assms
proof (induction js arbitrary: st)
  case Nil
  then show ?case by simp
next
  case (Cons j0 js)
  from run_jobs_step [OF Cons.prems(1)] obtain st1 where
    r: "run_jobs chk act skip js st1 = Inr st'" and s: "stepped chk act skip j0 st st1"
    by blast
  note sf = step_files [OF Cons.prems(2) Cons.prems(3) s]
  note w' = writes_only_Cons [OF Cons.prems(2)]
  note a' = apart_Cons [OF Cons.prems(3)]
  show ?case
  proof (cases "j \<in> set js")
    case True
    have "path_exists st1 (chk j)" using sf(3) Cons.prems(4) Cons.prems(5) by simp
    from Cons.IH [OF r w' a'(1) True this] obtain st_a st_b where
      ab: "act j st_a = Inr st_b"
      and ag: "\<forall>p. (p \<in> outs \<longrightarrow> p = out j) \<longrightarrow> files st_a p = files st1 p"
      and fin: "files st' (out j) = files st_b (out j)"
      by blast
    have ne: "out j \<noteq> out j0" using True a'(2) by (metis imageI)
    have "\<forall>p. (p \<in> outs \<longrightarrow> p = out j) \<longrightarrow> files st_a p = files st p"
    proof (intro allI impI)
      fix p assume p: "p \<in> outs \<longrightarrow> p = out j"
      then have "p \<noteq> out j0" using a'(3) ne by auto
      then show "files st_a p = files st p" using ag p sf(1) by simp
    qed
    with ab fin show ?thesis by blast
  next
    case False
    then have j: "j = j0" using Cons.prems(4) by simp
    then have run: "act j st = Inr st1" using s Cons.prems(5) by (simp add: stepped_def)
    have "out j \<notin> out ` {j' \<in> set js. path_exists st1 (chk j')}" using a'(2) j by auto
    from run_jobs_frame [OF r w' a'(1) this] have "files st' (out j) = files st1 (out j)" .
    with run show ?thesis by blast
  qed
qed

text \<open>
  The run returns when each item whose path exists can be run in every world that
  differs from the initial one at most on the outputs of the other items.
\<close>

lemma run_jobs_returns:
  assumes "writes_only act out msg js" and "apart chk out outs js"
    and "\<forall>j \<in> set js. path_exists st (chk j) \<longrightarrow>
           (\<forall>st_a. (\<forall>p. (p \<in> outs \<longrightarrow> p = out j) \<longrightarrow> files st_a p = files st p)
              \<longrightarrow> (\<exists>st_b. act j st_a = Inr st_b))"
  shows "\<exists>st'. run_jobs chk act skip js st = Inr st'"
  using assms
proof (induction js arbitrary: st)
  case Nil
  then show ?case by simp
next
  case (Cons j js)
  note w' = writes_only_Cons [OF Cons.prems(1)]
  note a' = apart_Cons [OF Cons.prems(2)]
  have "\<exists>st1. stepped chk act skip j st st1"
  proof (cases "path_exists st (chk j)")
    case True
    then obtain st_b where "act j st = Inr st_b" using Cons.prems(3) by fastforce
    with True show ?thesis by (auto simp add: stepped_def)
  next
    case False
    then show ?thesis by (simp add: stepped_def)
  qed
  then obtain st1 where s: "stepped chk act skip j st st1" by blast
  note sf = step_files [OF Cons.prems(1) Cons.prems(2) s]
  have "\<forall>j' \<in> set js. path_exists st1 (chk j') \<longrightarrow>
           (\<forall>st_a. (\<forall>p. (p \<in> outs \<longrightarrow> p = out j') \<longrightarrow> files st_a p = files st1 p)
              \<longrightarrow> (\<exists>st_b. act j' st_a = Inr st_b))"
  proof (intro ballI impI allI)
    fix j' and st_a :: world
    assume j': "j' \<in> set js" and e: "path_exists st1 (chk j')"
      and ag: "\<forall>p. (p \<in> outs \<longrightarrow> p = out j') \<longrightarrow> files st_a p = files st1 p"
    have e0: "path_exists st (chk j')" using e sf(3) j' by simp
    have ne: "out j' \<noteq> out j" using j' a'(2) by (metis imageI)
    have "\<forall>p. (p \<in> outs \<longrightarrow> p = out j') \<longrightarrow> files st_a p = files st p"
    proof (intro allI impI)
      fix p assume p: "p \<in> outs \<longrightarrow> p = out j'"
      then have "p \<noteq> out j" using a'(3) ne by auto
      then show "files st_a p = files st p" using ag p sf(1) by simp
    qed
    with Cons.prems(3) j' e0 show "\<exists>st_b. act j' st_a = Inr st_b" by simp
  qed
  from Cons.IH [OF w' a'(1) this] obtain st' where "run_jobs chk act skip js st1 = Inr st'" by blast
  then have "run_jobs chk act skip (j # js) st = Inr st'"
    using s by (cases "path_exists st (chk j)") (simp_all add: stepped_def)
  then show ?case by blast
qed

section \<open>The loops of the three scripts\<close>

subsection \<open>The loop of the circular icon generator, and paths\<close>

lemma Image_open_cong: "files st p = files st' p \<Longrightarrow> Image_open lib st p = Image_open lib st' p"
  by (simp add: Image_open_def)

lemma circular_loop_run_jobs:
  "circular_loop lib src table st
     = run_jobs circular_chk (circular_act lib src) circular_skip (circular_jobs table) st"
proof (induction table arbitrary: st)
  case Nil
  then show ?case by (simp add: circular_jobs_def)
next
  case (Cons a table)
  obtain density sz where a: "a = (density, sz)" by (cases a)
  have j: "circular_jobs ((density, sz) # table) = (density, sz, False) # (density, sz, True) # circular_jobs table"
    by (simp add: circular_jobs_def)
  show ?case
    unfolding a j
    by (simp add: Cons.IH circular_chk_def circular_act_def circular_skip_def icon_path_def
        mipmap_dir_def Let_def split: sum.splits)
qed

lemma circular_jobs_mem:
  "j \<in> set (circular_jobs table) \<longleftrightarrow> (\<exists>density sz is_round. j = (density, sz, is_round) \<and> (density, sz) \<in> set table)"
  by (auto simp add: circular_jobs_def)

lemma circular_writes_only: "writes_only (circular_act lib src) circular_out circular_msg js"
  unfolding writes_only_def
proof (intro ballI allI impI)
  fix j st st' assume r: "circular_act lib src j st = Inr st'"
  obtain density sz is_round where j: "j = (density, sz, is_round)" by (cases j)
  from r have "create_circular_icon lib src (icon_path density is_round) sz is_round st = Inr st'"
    by (simp add: circular_act_def j)
  from create_circular_icon_Inr [OF this]
  show "(\<exists>bs. files st' = (files st)(circular_out j \<mapsto> File bs)) \<and> console st' = console st @ [circular_msg j]"
    by (auto simp add: circular_out_def circular_msg_def j)
qed

lemma circular_out_list:
  "map circular_out (circular_jobs ICON_SIZES) =
     [''android/app/src/main/res/mipmap-mdpi/ic_launcher.png'',
      ''android/app/src/main/res/mipmap-mdpi/ic_launcher_round.png'',
      ''android/app/src/main/res/mipmap-hdpi/ic_launcher.png'',
      ''android/app/src/main/res/mipmap-hdpi/ic_launcher_round.png'',
      ''android/app/src/main/res/mipmap-xhdpi/ic_launcher.png'',
      ''android/app/src/main/res/mipmap-xhdpi/ic_launcher_round.png'',
      ''android/app/src/main/res/mipmap-xxhdpi/ic_launcher.png'',
      ''android/app/src/main/res/mipmap-xxhdpi/ic_launcher_round.png'',
      ''android/app/src/main/res/mipmap-xxxhdpi/ic_launcher.png'',
      ''android/app/src/main/res/mipmap-xxxhdpi/ic_launcher_round.png'']"
  by (simp add: circular_jobs_def ICON_SIZES_def circular_out_def icon_path_def mipmap_dir_def
      path_join_def BASE_PATH_def)

lemma circular_chk_list:
  "map circular_chk (circular_jobs ICON_SIZES) =
     [''android/app/src/main/res/mipmap-mdpi'', ''android/app/src/main/res/mipmap-mdpi'',
      ''android/app/src/main/res/mipmap-hdpi'', ''android/app/src/main/res/mipmap-hdpi'',
      ''android/app/src/main/res/mipmap-xhdpi'', ''android/app/src/main/res/mipmap-xhdpi'',
      ''android/app/src/main/res/mipmap-xxhdpi'', ''android/app/src/main/res/mipmap-xxhdpi'',
      ''android/app/src/main/res/mipmap-xxxhdpi'', ''android/app/src/main/res/mipmap-xxxhdpi'']"
  by (simp add: circular_jobs_def ICON_SIZES_def circular_chk_def mipmap_dir_def
      path_join_def BASE_PATH_def)

lemma circular_outs_set: "circular_outs = set (map circular_out (circular_jobs ICON_SIZES))"
  by (simp add: circular_outs_def)

lemma circular_chk_apart:
  assumes "j \<in> set (circular_jobs ICON_SIZES)"
  shows "circular_chk j \<notin> circular_outs"
proof -
  have "\<forall>p \<in> set (map circular_chk (circular_jobs ICON_SIZES)). p \<notin> circular_outs"
    unfolding circular_outs_set circular_out_list circular_chk_list by simp
  with assms show ?thesis by simp
qed

lemma circular_apart: "apart circular_chk circular_out circular_outs (circular_jobs ICON_SIZES)"
proof -
  have d: "distinct (map circular_out (circular_jobs ICON_SIZES))"
    unfolding circular_out_list by simp
  show ?thesis
    unfolding apart_def using d circular_chk_apart by (auto simp add: circular_outs_def)
qed

lemma dirname_join:
  assumes "CHR ''/'' \<notin> set name" and "a \<noteq> []" and "last a \<noteq> CHR ''/''"
  shows "dirname (a @ ''/'' @ name) = a"
proof -
  have "dropWhile (\<lambda>c. c \<noteq> CHR ''/'') (rev name @ CHR ''/'' # rev a) = CHR ''/'' # rev a"
    using assms(1) by (induction name rule: rev_induct) auto
  then have head: "rev (dropWhile (\<lambda>c. c \<noteq> CHR ''/'') (rev (a @ ''/'' @ name))) = a @ ''/''"
    by simp
  obtain c cs where rc: "rev a = c # cs" using assms(2) by (cases "rev a") simp_all
  have "c = last a" using rc assms(2) by (metis last_rev list.sel(1) rev_rev_ident hd_rev)
  then have c: "c \<noteq> CHR ''/''" using assms(3) by simp
  have strip: "rstrip_sep (a @ ''/'') = a"
  proof -
    have "dropWhile (\<lambda>c. c = CHR ''/'') (rev (a @ ''/'')) = dropWhile (\<lambda>c. c = CHR ''/'') (c # cs)"
      by (simp add: rc)
    also have "\<dots> = c # cs" using c by simp
    finally have "rev (dropWhile (\<lambda>c. c = CHR ''/'') (rev (a @ ''/''))) = rev (rev a)"
      by (simp only: rc)
    then show ?thesis by (simp add: rstrip_sep_def)
  qed
  have "c \<in> set a" using rc by (metis list.set_intros(1) set_rev)
  then have n: "\<not> list_all (\<lambda>c. c = CHR ''/'') (a @ ''/'')"
    using c by (auto simp add: list_all_iff)
  have ne: "a @ ''/'' \<noteq> []" by simp
  show ?thesis
    unfolding dirname_def head Let_def using n ne strip by (simp only: if_True simp_thms)
qed

lemma mipmap_dir_eq: "mipmap_dir d = ''android/app/src/main/res/mipmap-'' @ d"
  by (simp add: mipmap_dir_def path_join_def BASE_PATH_def)

lemma drawable_dir_eq:
  "drawable_dir d dark = ''android/app/src/main/res/'' @ (if dark then ''drawable-night-'' else ''drawable-'') @ d"
  by (simp add: drawable_dir_def path_join_def BASE_PATH_def)

lemma last_plain:
  assumes "CHR ''/'' \<notin> set d" and "pre \<noteq> []" and "last pre \<noteq> CHR ''/''"
  shows "last (pre @ d) \<noteq> CHR ''/''"
proof (cases "d = []")
  case True
  then show ?thesis using assms(3) by simp
next
  case False
  then have "last d \<in> set d" by simp
  then have "last d \<noteq> CHR ''/''" using assms(1) by metis
  with False show ?thesis by simp
qed

lemma mipmap_dir_last: "CHR ''/'' \<notin> set d \<Longrightarrow> last (mipmap_dir d) \<noteq> CHR ''/''"
  unfolding mipmap_dir_eq by (rule last_plain) simp_all

lemma drawable_dir_last: "CHR ''/'' \<notin> set d \<Longrightarrow> last (drawable_dir d dark) \<noteq> CHR ''/''"
proof -
  assume d: "CHR ''/'' \<notin> set d"
  have "last ((''android/app/src/main/res/'' @ (if dark then ''drawable-night-'' else ''drawable-'')) @ d) \<noteq> CHR ''/''"
    by (rule last_plain [OF d]) simp_all
  then show ?thesis unfolding drawable_dir_eq by simp
qed

lemma path_join_plain:
  assumes "a \<noteq> []" and "last a \<noteq> CHR ''/''" and "b \<noteq> []" and "hd b \<noteq> CHR ''/''"
  shows "path_join a b = a @ ''/'' @ b"
  using assms by (simp add: path_join_def)

lemma icon_path_eq:
  assumes "CHR ''/'' \<notin> set d"
  shows "icon_path d r = mipmap_dir d @ ''/'' @ (if r then ''ic_launcher_round.png'' else ''ic_launcher.png'')"
proof -
  have e: "mipmap_dir d \<noteq> []" by (simp add: mipmap_dir_eq)
  show ?thesis
    unfolding icon_path_def
    by (rule path_join_plain [OF e mipmap_dir_last [OF assms]]) simp_all
qed

lemma splash_path_eq:
  assumes "CHR ''/'' \<notin> set d"
  shows "splash_path d dark = drawable_dir d dark @ ''/'' @ ''splashscreen_logo.png''"
proof -
  have e: "drawable_dir d dark \<noteq> []" by (simp add: drawable_dir_eq)
  show ?thesis
    unfolding splash_path_def
    by (rule path_join_plain [OF e drawable_dir_last [OF assms]]) simp_all
qed

lemma dirname_icon_path:
  assumes "CHR ''/'' \<notin> set d"
  shows "dirname (icon_path d r) = mipmap_dir d"
proof -
  have n: "CHR ''/'' \<notin> set (if r then ''ic_launcher_round.png'' else ''ic_launcher.png'')" by simp
  have e: "mipmap_dir d \<noteq> []" by (simp add: mipmap_dir_eq)
  show ?thesis
    unfolding icon_path_eq [OF assms] by (rule dirname_join [OF n e mipmap_dir_last [OF assms]])
qed

lemma dirname_splash_path:
  assumes "CHR ''/'' \<notin> set d"
  shows "dirname (splash_path d dark) = drawable_dir d dark"
proof -
  have n: "CHR ''/'' \<notin> set ''splashscreen_logo.png''" by simp
  have e: "drawable_dir d dark \<noteq> []" by (simp add: drawable_dir_eq)
  show ?thesis
    unfolding splash_path_eq [OF assms] by (rule dirname_join [OF n e drawable_dir_last [OF assms]])
qed

lemma ICON_SIZES_cases:
  assumes "(d, sz) \<in> set ICON_SIZES"
  shows "(d, sz) = (''mdpi'', 48) \<or> (d, sz) = (''hdpi'', 72) \<or> (d, sz) = (''xhdpi'', 96) \<or>
      (d, sz) = (''xxhdpi'', 144) \<or> (d, sz) = (''xxxhdpi'', 192)"
  using assms by (simp add: ICON_SIZES_def)

lemma ICON_SIZES_plain:
  assumes "(d, sz) \<in> set ICON_SIZES"
  shows "CHR ''/'' \<notin> set d" and "0 < spec_logo_edge sz"
proof -
  note c = ICON_SIZES_cases [OF assms]
  from c show "CHR ''/'' \<notin> set d" by (elim disjE) simp_all
  from c show "0 < spec_logo_edge sz" by (elim disjE) (simp_all add: spec_logo_edge_def)
qed

lemma SPLASH_SIZES_plain:
  assumes "(d, sz) \<in> set SPLASH_SIZES"
  shows "CHR ''/'' \<notin> set d" and "0 < sz"
proof -
  from assms have c: "(d, sz) = (''mdpi'', 300) \<or> (d, sz) = (''hdpi'', 450) \<or> (d, sz) = (''xhdpi'', 600) \<or>
      (d, sz) = (''xxhdpi'', 900) \<or> (d, sz) = (''xxxhdpi'', 1200)"
    by (simp add: SPLASH_SIZES_def)
  from c show "CHR ''/'' \<notin> set d" by (elim disjE) simp_all
  from c show "0 < sz" by (elim disjE) simp_all
qed

lemma DENSITIES_plain:
  assumes "(d, sz) \<in> set DENSITIES"
  shows "CHR ''/'' \<notin> set d" and "0 < sz"
proof -
  from assms have c: "(d, sz) = (''mdpi'', 48) \<or> (d, sz) = (''hdpi'', 72) \<or> (d, sz) = (''xhdpi'', 96) \<or>
      (d, sz) = (''xxhdpi'', 144) \<or> (d, sz) = (''xxxhdpi'', 192)"
    by (simp add: DENSITIES_def)
  from c show "CHR ''/'' \<notin> set d" by (elim disjE) simp_all
  from c show "0 < sz" by (elim disjE) simp_all
qed

lemma circular_dirname:
  assumes "j \<in> set (circular_jobs ICON_SIZES)"
  shows "dirname (circular_out j) = circular_chk j"
proof -
  from assms obtain d sz r where j: "j = (d, sz, r)" and m: "(d, sz) \<in> set ICON_SIZES"
    unfolding circular_jobs_mem by blast
  from dirname_icon_path [OF ICON_SIZES_plain(1) [OF m]] show ?thesis
    by (simp add: j circular_out_def circular_chk_def)
qed

text \<open>The source logos are no outputs: they end in \<open>on.png\<close>, no output does.\<close>

lemma source_tail:
  "take 6 (rev (circular_SOURCE_LOGO home)) = ''gnp.no''"
  "take 6 (rev (splash_SOURCE_LOGO home)) = ''gnp.no''"
  by (simp_all add: circular_SOURCE_LOGO_def splash_SOURCE_LOGO_def expanduser_def)

lemma circular_source_apart: "circular_SOURCE_LOGO home \<notin> circular_outs"
proof
  assume "circular_SOURCE_LOGO home \<in> circular_outs"
  then have "take 6 (rev (circular_SOURCE_LOGO home)) \<in> (\<lambda>p. take 6 (rev p)) ` circular_outs" by blast
  then show False
    unfolding source_tail circular_outs_set circular_out_list by simp
qed

lemma circular_job_in: "(d, sz) \<in> set ICON_SIZES \<Longrightarrow> (d, sz, r) \<in> set (circular_jobs ICON_SIZES)"
  by (simp add: circular_jobs_mem)

lemma circular_item:
  assumes run: "circular_loop lib src ICON_SIZES st = Inr st'" and src: "src \<notin> circular_outs"
    and m: "(d, sz) \<in> set ICON_SIZES" and e: "path_exists st (mipmap_dir d)"
  shows "\<exists>logo. Image_open lib st src = Inr logo \<and> files st (mipmap_dir d) = Some Dir \<and>
           files st (icon_path d r) \<noteq> Some Dir \<and>
           files st' (icon_path d r) = Some (File (encode lib (raster sz sz (spec_icon_pixel lib logo sz r))))"
proof -
  let ?j = "(d, sz, r)"
  have j: "?j \<in> set (circular_jobs ICON_SIZES)" using m by (rule circular_job_in)
  have e': "path_exists st (circular_chk ?j)" using e by (simp add: circular_chk_def)
  from run_jobs_item [OF run [unfolded circular_loop_run_jobs] circular_writes_only circular_apart j e']
  obtain st_a st_b where
    ab: "circular_act lib src ?j st_a = Inr st_b"
    and ag: "\<forall>p. (p \<in> circular_outs \<longrightarrow> p = circular_out ?j) \<longrightarrow> files st_a p = files st p"
    and fin: "files st' (circular_out ?j) = files st_b (circular_out ?j)"
    by blast
  have o: "circular_out ?j = icon_path d r" by (simp add: circular_out_def)
  from ab have "create_circular_icon lib src (icon_path d r) sz r st_a = Inr st_b"
    by (simp add: circular_act_def)
  from create_circular_icon_Inr [OF this] obtain logo where
    lg: "Image_open lib st_a src = Inr logo"
    and dr: "files st_a (dirname (icon_path d r)) = Some Dir"
    and nd: "files st_a (icon_path d r) \<noteq> Some Dir"
    and fb: "files st_b = (files st_a)(icon_path d r \<mapsto> File (encode lib (raster sz sz (spec_icon_pixel lib logo sz r))))"
    by blast
  have dn: "dirname (icon_path d r) = mipmap_dir d"
    using circular_dirname [OF j] by (simp add: circular_out_def circular_chk_def)
  have "mipmap_dir d \<notin> circular_outs"
    using circular_chk_apart [OF j] by (simp add: circular_chk_def)
  then have a1: "files st_a (mipmap_dir d) = files st (mipmap_dir d)" using ag by simp
  have a2: "files st_a src = files st src" using ag src by simp
  have a3: "files st_a (icon_path d r) = files st (icon_path d r)" using ag o by simp
  have "Image_open lib st src = Inr logo" using lg Image_open_cong [OF a2, of lib] by simp
  moreover have "files st (mipmap_dir d) = Some Dir" using dr dn a1 by simp
  moreover have "files st (icon_path d r) \<noteq> Some Dir" using nd a3 by simp
  moreover have "files st' (icon_path d r) = Some (File (encode lib (raster sz sz (spec_icon_pixel lib logo sz r))))"
    using fin fb o by simp
  ultimately show ?thesis by blast
qed

lemma circular_frame:
  assumes run: "circular_loop lib src ICON_SIZES st = Inr st'"
    and p: "\<forall>(d, sz) \<in> set ICON_SIZES. path_exists st (mipmap_dir d) \<longrightarrow> (\<forall>r. p \<noteq> icon_path d r)"
  shows "files st' p = files st p"
proof (rule run_jobs_frame [OF run [unfolded circular_loop_run_jobs] circular_writes_only circular_apart])
  show "p \<notin> circular_out ` {j \<in> set (circular_jobs ICON_SIZES). path_exists st (circular_chk j)}"
    using p by (auto simp add: circular_jobs_mem circular_out_def circular_chk_def)
qed

lemma circular_console:
  assumes run: "circular_loop lib src ICON_SIZES st = Inr st'"
  shows "console st' = console st @
           concat (map (\<lambda>j. if path_exists st (circular_chk j) then [circular_msg j] else circular_skip j)
                     (circular_jobs ICON_SIZES))"
  by (rule run_jobs_console [OF run [unfolded circular_loop_run_jobs] circular_writes_only circular_apart])

lemma circular_loop_returns:
  assumes src: "src \<notin> circular_outs" and rdy: "circular_ready lib src st"
  shows "\<exists>st'. circular_loop lib src ICON_SIZES st = Inr st'"
  unfolding circular_loop_run_jobs
proof (rule run_jobs_returns [OF circular_writes_only circular_apart], intro ballI impI allI)
  fix j and st_a :: world
  assume j: "j \<in> set (circular_jobs ICON_SIZES)" and e: "path_exists st (circular_chk j)"
    and ag: "\<forall>p. (p \<in> circular_outs \<longrightarrow> p = circular_out j) \<longrightarrow> files st_a p = files st p"
  from j obtain d sz r where jd: "j = (d, sz, r)" and m: "(d, sz) \<in> set ICON_SIZES"
    unfolding circular_jobs_mem by blast
  from e have e': "path_exists st (mipmap_dir d)" by (simp add: jd circular_chk_def)
  from rdy m e' obtain logo where
    lg: "Image_open lib st src = Inr logo" and dr: "files st (mipmap_dir d) = Some Dir"
    and nd: "files st (icon_path d r) \<noteq> Some Dir"
    unfolding circular_ready_def by blast
  have dn: "dirname (icon_path d r) = mipmap_dir d"
    using circular_dirname [OF j] by (simp add: jd circular_out_def circular_chk_def)
  have "mipmap_dir d \<notin> circular_outs"
    using circular_chk_apart [OF j] by (simp add: jd circular_chk_def)
  then have a1: "files st_a (mipmap_dir d) = files st (mipmap_dir d)" using ag by simp
  have a2: "files st_a src = files st src" using ag src by simp
  have a3: "files st_a (icon_path d r) = files st (icon_path d r)" using ag by (simp add: jd circular_out_def)
  have "Image_open lib st_a src = Inr logo" using lg Image_open_cong [OF a2, of lib] by simp
  from create_circular_icon_ok [OF this ICON_SIZES_plain(2) [OF m], of "icon_path d r" r]
  show "\<exists>st_b. circular_act lib src j st_a = Inr st_b"
    using dr nd dn a1 a3 by (simp add: circular_act_def jd)
qed

subsection \<open>The loop of the splash logo generator\<close>

lemma splash_loop_run_jobs:
  "splash_loop lib src table st
     = run_jobs splash_chk (splash_act lib src) splash_skip (splash_jobs table) st"
proof (induction table arbitrary: st)
  case Nil
  then show ?case by (simp add: splash_jobs_def)
next
  case (Cons a table)
  obtain density sz where a: "a = (density, sz)" by (cases a)
  have j: "splash_jobs ((density, sz) # table) = (density, sz, False) # (density, sz, True) # splash_jobs table"
    by (simp add: splash_jobs_def)
  show ?case
    unfolding a j
    by (simp add: Cons.IH splash_chk_def splash_act_def splash_skip_def splash_path_def
        drawable_dir_def Let_def split: sum.splits)
qed

lemma splash_jobs_mem:
  "j \<in> set (splash_jobs table) \<longleftrightarrow> (\<exists>density sz dark. j = (density, sz, dark) \<and> (density, sz) \<in> set table)"
  by (auto simp add: splash_jobs_def)

lemma splash_writes_only: "writes_only (splash_act lib src) splash_out splash_msg js"
  unfolding writes_only_def
proof (intro ballI allI impI)
  fix j st st' assume r: "splash_act lib src j st = Inr st'"
  obtain density sz dark where j: "j = (density, sz, dark)" by (cases j)
  from r have "generate_splash_logo lib src (splash_path density dark) sz st = Inr st'"
    by (simp add: splash_act_def j)
  from generate_splash_logo_Inr [OF this]
  show "(\<exists>bs. files st' = (files st)(splash_out j \<mapsto> File bs)) \<and> console st' = console st @ [splash_msg j]"
    by (auto simp add: splash_out_def splash_msg_def j)
qed

lemma splash_out_list:
  "map splash_out (splash_jobs SPLASH_SIZES) =
     [''android/app/src/main/res/drawable-mdpi/splashscreen_logo.png'',
      ''android/app/src/main/res/drawable-night-mdpi/splashscreen_logo.png'',
      ''android/app/src/main/res/drawable-hdpi/splashscreen_logo.png'',
      ''android/app/src/main/res/drawable-night-hdpi/splashscreen_logo.png'',
      ''android/app/src/main/res/drawable-xhdpi/splashscreen_logo.png'',
      ''android/app/src/main/res/drawable-night-xhdpi/splashscreen_logo.png'',
      ''android/app/src/main/res/drawable-xxhdpi/splashscreen_logo.png'',
      ''android/app/src/main/res/drawable-night-xxhdpi/splashscreen_logo.png'',
      ''android/app/src/main/res/drawable-xxxhdpi/splashscreen_logo.png'',
      ''android/app/src/main/res/drawable-night-xxxhdpi/splashscreen_logo.png'']"
  by (simp add: splash_jobs_def SPLASH_SIZES_def splash_out_def splash_path_def drawable_dir_def
      path_join_def BASE_PATH_def)

lemma splash_chk_list:
  "map splash_chk (splash_jobs SPLASH_SIZES) =
     [''android/app/src/main/res/drawable-mdpi'', ''android/app/src/main/res/drawable-night-mdpi'',
      ''android/app/src/main/res/drawable-hdpi'', ''android/app/src/main/res/drawable-night-hdpi'',
      ''android/app/src/main/res/drawable-xhdpi'', ''android/app/src/main/res/drawable-night-xhdpi'',
      ''android/app/src/main/res/drawable-xxhdpi'', ''android/app/src/main/res/drawable-night-xxhdpi'',
      ''android/app/src/main/res/drawable-xxxhdpi'', ''android/app/src/main/res/drawable-night-xxxhdpi'']"
  by (simp add: splash_jobs_def SPLASH_SIZES_def splash_chk_def drawable_dir_def
      path_join_def BASE_PATH_def)

lemma splash_outs_set: "splash_outs = set (map splash_out (splash_jobs SPLASH_SIZES))"
  by (simp add: splash_outs_def)

lemma splash_chk_apart:
  assumes "j \<in> set (splash_jobs SPLASH_SIZES)"
  shows "splash_chk j \<notin> splash_outs"
proof -
  have "\<forall>p \<in> set (map splash_chk (splash_jobs SPLASH_SIZES)). p \<notin> splash_outs"
    unfolding splash_outs_set splash_out_list splash_chk_list by simp
  with assms show ?thesis by simp
qed

lemma splash_apart: "apart splash_chk splash_out splash_outs (splash_jobs SPLASH_SIZES)"
proof -
  have d: "distinct (map splash_out (splash_jobs SPLASH_SIZES))"
    unfolding splash_out_list by simp
  show ?thesis
    unfolding apart_def using d splash_chk_apart by (auto simp add: splash_outs_def)
qed

lemma splash_source_apart: "splash_SOURCE_LOGO home \<notin> splash_outs"
proof
  assume "splash_SOURCE_LOGO home \<in> splash_outs"
  then have "take 6 (rev (splash_SOURCE_LOGO home)) \<in> (\<lambda>p. take 6 (rev p)) ` splash_outs" by blast
  then show False
    unfolding source_tail splash_outs_set splash_out_list by simp
qed

lemma splash_item:
  assumes run: "splash_loop lib src SPLASH_SIZES st = Inr st'" and src: "src \<notin> splash_outs"
    and m: "(d, sz) \<in> set SPLASH_SIZES" and e: "path_exists st (drawable_dir d dark)"
  shows "\<exists>img. Image_open lib st src = Inr img \<and> files st (drawable_dir d dark) = Some Dir \<and>
           files st (splash_path d dark) \<noteq> Some Dir \<and>
           files st' (splash_path d dark) = Some (File (encode lib (raster sz sz (lanczos lib img sz sz))))"
proof -
  let ?j = "(d, sz, dark)"
  have j: "?j \<in> set (splash_jobs SPLASH_SIZES)" using m by (simp add: splash_jobs_mem)
  have e': "path_exists st (splash_chk ?j)" using e by (simp add: splash_chk_def)
  from run_jobs_item [OF run [unfolded splash_loop_run_jobs] splash_writes_only splash_apart j e']
  obtain st_a st_b where
    ab: "splash_act lib src ?j st_a = Inr st_b"
    and ag: "\<forall>p. (p \<in> splash_outs \<longrightarrow> p = splash_out ?j) \<longrightarrow> files st_a p = files st p"
    and fin: "files st' (splash_out ?j) = files st_b (splash_out ?j)"
    by blast
  have o: "splash_out ?j = splash_path d dark" by (simp add: splash_out_def)
  from ab have "generate_splash_logo lib src (splash_path d dark) sz st_a = Inr st_b"
    by (simp add: splash_act_def)
  from generate_splash_logo_Inr [OF this] obtain img where
    lg: "Image_open lib st_a src = Inr img"
    and dr: "files st_a (dirname (splash_path d dark)) = Some Dir"
    and nd: "files st_a (splash_path d dark) \<noteq> Some Dir"
    and fb: "files st_b = (files st_a)(splash_path d dark \<mapsto> File (encode lib (raster sz sz (lanczos lib img sz sz))))"
    by blast
  have dn: "dirname (splash_path d dark) = drawable_dir d dark"
    by (rule dirname_splash_path [OF SPLASH_SIZES_plain(1) [OF m]])
  have "drawable_dir d dark \<notin> splash_outs"
    using splash_chk_apart [OF j] by (simp add: splash_chk_def)
  then have a1: "files st_a (drawable_dir d dark) = files st (drawable_dir d dark)" using ag by simp
  have a2: "files st_a src = files st src" using ag src by simp
  have a3: "files st_a (splash_path d dark) = files st (splash_path d dark)" using ag o by simp
  have "Image_open lib st src = Inr img" using lg Image_open_cong [OF a2, of lib] by simp
  moreover have "files st (drawable_dir d dark) = Some Dir" using dr dn a1 by simp
  moreover have "files st (splash_path d dark) \<noteq> Some Dir" using nd a3 by simp
  moreover have "files st' (splash_path d dark) = Some (File (encode lib (raster sz sz (lanczos lib img sz sz))))"
    using fin fb o by simp
  ultimately show ?thesis by blast
qed

lemma splash_frame:
  assumes run: "splash_loop lib src SPLASH_SIZES st = Inr st'"
    and p: "\<forall>(d, sz) \<in> set SPLASH_SIZES. \<forall>dark. path_exists st (drawable_dir d dark) \<longrightarrow> p \<noteq> splash_path d dark"
  shows "files st' p = files st p"
proof (rule run_jobs_frame [OF run [unfolded splash_loop_run_jobs] splash_writes_only splash_apart])
  show "p \<notin> splash_out ` {j \<in> set (splash_jobs SPLASH_SIZES). path_exists st (splash_chk j)}"
    using p by (auto simp add: splash_jobs_mem splash_out_def splash_chk_def)
qed

lemma splash_console:
  assumes run: "splash_loop lib src SPLASH_SIZES st = Inr st'"
  shows "console st' = console st @
           concat (map (\<lambda>j. if path_exists st (splash_chk j) then [splash_msg j] else splash_skip j)
                     (splash_jobs SPLASH_SIZES))"
  by (rule run_jobs_console [OF run [unfolded splash_loop_run_jobs] splash_writes_only splash_apart])

lemma splash_loop_returns:
  assumes src: "src \<notin> splash_outs" and rdy: "splash_ready lib src st"
  shows "\<exists>st'. splash_loop lib src SPLASH_SIZES st = Inr st'"
  unfolding splash_loop_run_jobs
proof (rule run_jobs_returns [OF splash_writes_only splash_apart], intro ballI impI allI)
  fix j and st_a :: world
  assume j: "j \<in> set (splash_jobs SPLASH_SIZES)" and e: "path_exists st (splash_chk j)"
    and ag: "\<forall>p. (p \<in> splash_outs \<longrightarrow> p = splash_out j) \<longrightarrow> files st_a p = files st p"
  from j obtain d sz dark where jd: "j = (d, sz, dark)" and m: "(d, sz) \<in> set SPLASH_SIZES"
    unfolding splash_jobs_mem by blast
  from e have e': "path_exists st (drawable_dir d dark)" by (simp add: jd splash_chk_def)
  from rdy m e' obtain img where
    lg: "Image_open lib st src = Inr img" and dr: "files st (drawable_dir d dark) = Some Dir"
    and nd: "files st (splash_path d dark) \<noteq> Some Dir"
    unfolding splash_ready_def by blast
  have dn: "dirname (splash_path d dark) = drawable_dir d dark"
    by (rule dirname_splash_path [OF SPLASH_SIZES_plain(1) [OF m]])
  have "drawable_dir d dark \<notin> splash_outs"
    using splash_chk_apart [OF j] by (simp add: jd splash_chk_def)
  then have a1: "files st_a (drawable_dir d dark) = files st (drawable_dir d dark)" using ag by simp
  have a2: "files st_a src = files st src" using ag src by simp
  have a3: "files st_a (splash_path d dark) = files st (splash_path d dark)"
    using ag by (simp add: jd splash_out_def)
  have "Image_open lib st_a src = Inr img" using lg Image_open_cong [OF a2, of lib] by simp
  from generate_splash_logo_ok [OF this SPLASH_SIZES_plain(2) [OF m], of "splash_path d dark"]
  show "\<exists>st_b. splash_act lib src j st_a = Inr st_b"
    using dr nd dn a1 a3 by (simp add: splash_act_def jd)
qed

subsection \<open>The loop of the icon upscaler\<close>

lemma scale_jobs_eq: "scale_jobs DENSITIES = circular_jobs ICON_SIZES"
  by (simp add: scale_jobs_def circular_jobs_def DENSITIES_def ICON_SIZES_def)

lemma DENSITIES_eq: "DENSITIES = ICON_SIZES"
  by (simp add: DENSITIES_def ICON_SIZES_def)

lemma scale_loop_run_jobs:
  "scale_loop lib ''android/app/src/main/res'' table st
     = run_jobs circular_out (scale_act lib) scale_skip (scale_jobs table) st"
proof (induction table arbitrary: st)
  case Nil
  then show ?case by (simp add: scale_jobs_def)
next
  case (Cons a table)
  obtain density sz where a: "a = (density, sz)" by (cases a)
  have j: "scale_jobs ((density, sz) # table) = (density, sz, False) # (density, sz, True) # scale_jobs table"
    by (simp add: scale_jobs_def)
  show ?case
    unfolding a j
    by (simp add: Cons.IH circular_out_def scale_act_def scale_skip_def icon_path_def
        mipmap_dir_def BASE_PATH_def Let_def split: sum.splits)
qed

lemma scale_writes_only: "writes_only (scale_act lib) circular_out scale_msg js"
  unfolding writes_only_def
proof (intro ballI allI impI)
  fix j st st' assume r: "scale_act lib j st = Inr st'"
  obtain density sz is_round where j: "j = (density, sz, is_round)" by (cases j)
  from r have "scale_icon lib (icon_path density is_round) (icon_path density is_round) sz st = Inr st'"
    by (simp add: scale_act_def j)
  from scale_icon_Inr [OF this]
  show "(\<exists>bs. files st' = (files st)(circular_out j \<mapsto> File bs)) \<and> console st' = console st @ [scale_msg j]"
    by (auto simp add: circular_out_def scale_msg_def j)
qed

lemma scale_apart: "apart circular_out circular_out circular_outs (circular_jobs ICON_SIZES)"
proof -
  have d: "distinct (map circular_out (circular_jobs ICON_SIZES))"
    unfolding circular_out_list by simp
  show ?thesis
    unfolding apart_def using d by (auto simp add: circular_outs_def)
qed

lemma scale_item:
  assumes run: "scale_loop lib ''android/app/src/main/res'' DENSITIES st = Inr st'"
    and m: "(d, sz) \<in> set DENSITIES" and e: "path_exists st (icon_path d r)"
  shows "\<exists>img. Image_open lib st (icon_path d r) = Inr img \<and> files st (mipmap_dir d) = Some Dir \<and>
           files st' (icon_path d r) = Some (File (encode lib (raster sz sz (spec_upscaled_pixel lib img sz))))"
proof -
  let ?j = "(d, sz, r)"
  have m': "(d, sz) \<in> set ICON_SIZES" using m by (simp add: DENSITIES_eq)
  have j: "?j \<in> set (circular_jobs ICON_SIZES)" using m' by (rule circular_job_in)
  have o: "circular_out ?j = icon_path d r" by (simp add: circular_out_def)
  have e': "path_exists st (circular_out ?j)" using e o by simp
  from run_jobs_item [OF run [unfolded scale_loop_run_jobs scale_jobs_eq] scale_writes_only scale_apart j e']
  obtain st_a st_b where
    ab: "scale_act lib ?j st_a = Inr st_b"
    and ag: "\<forall>p. (p \<in> circular_outs \<longrightarrow> p = circular_out ?j) \<longrightarrow> files st_a p = files st p"
    and fin: "files st' (circular_out ?j) = files st_b (circular_out ?j)"
    by blast
  from ab have "scale_icon lib (icon_path d r) (icon_path d r) sz st_a = Inr st_b"
    by (simp add: scale_act_def)
  from scale_icon_Inr [OF this] obtain img where
    lg: "Image_open lib st_a (icon_path d r) = Inr img"
    and dr: "files st_a (dirname (icon_path d r)) = Some Dir"
    and fb: "files st_b = (files st_a)(icon_path d r \<mapsto> File (encode lib (raster sz sz (spec_upscaled_pixel lib img sz))))"
    by blast
  have dn: "dirname (icon_path d r) = mipmap_dir d"
    by (rule dirname_icon_path [OF ICON_SIZES_plain(1) [OF m']])
  have "mipmap_dir d \<notin> circular_outs"
    using circular_chk_apart [OF j] by (simp add: circular_chk_def)
  then have a1: "files st_a (mipmap_dir d) = files st (mipmap_dir d)" using ag by simp
  have a3: "files st_a (icon_path d r) = files st (icon_path d r)" using ag o by simp
  have "Image_open lib st (icon_path d r) = Inr img" using lg Image_open_cong [OF a3, of lib] by simp
  moreover have "files st (mipmap_dir d) = Some Dir" using dr dn a1 by simp
  moreover have "files st' (icon_path d r) = Some (File (encode lib (raster sz sz (spec_upscaled_pixel lib img sz))))"
    using fin fb o by simp
  ultimately show ?thesis by blast
qed

lemma scale_frame:
  assumes run: "scale_loop lib ''android/app/src/main/res'' DENSITIES st = Inr st'"
    and p: "\<forall>(d, sz) \<in> set DENSITIES. \<forall>r. path_exists st (icon_path d r) \<longrightarrow> p \<noteq> icon_path d r"
  shows "files st' p = files st p"
proof (rule run_jobs_frame [OF run [unfolded scale_loop_run_jobs scale_jobs_eq] scale_writes_only scale_apart])
  show "p \<notin> circular_out ` {j \<in> set (circular_jobs ICON_SIZES). path_exists st (circular_out j)}"
    using p by (auto simp add: circular_jobs_mem circular_out_def DENSITIES_eq)
qed

lemma scale_console:
  assumes run: "scale_loop lib ''android/app/src/main/res'' DENSITIES st = Inr st'"
  shows "console st' = console st @
           concat (map (\<lambda>j. if path_exists st (circular_out j) then [scale_msg j] else scale_skip j)
                     (circular_jobs ICON_SIZES))"
  by (rule run_jobs_console [OF run [unfolded scale_loop_run_jobs scale_jobs_eq] scale_writes_only scale_apart])

lemma Image_open_not_Dir: "Image_open lib st p = Inr img \<Longrightarrow> files st p \<noteq> Some Dir"
  by (auto simp add: Image_open_def split: option.splits entry.splits)

lemma scale_loop_returns:
  assumes rdy: "scale_ready lib st"
  shows "\<exists>st'. scale_loop lib ''android/app/src/main/res'' DENSITIES st = Inr st'"
  unfolding scale_loop_run_jobs scale_jobs_eq
proof (rule run_jobs_returns [OF scale_writes_only scale_apart], intro ballI impI allI)
  fix j and st_a :: world
  assume j: "j \<in> set (circular_jobs ICON_SIZES)" and e: "path_exists st (circular_out j)"
    and ag: "\<forall>p. (p \<in> circular_outs \<longrightarrow> p = circular_out j) \<longrightarrow> files st_a p = files st p"
  from j obtain d sz r where jd: "j = (d, sz, r)" and m': "(d, sz) \<in> set ICON_SIZES"
    unfolding circular_jobs_mem by blast
  have m: "(d, sz) \<in> set DENSITIES" using m' by (simp add: DENSITIES_eq)
  from e have e': "path_exists st (icon_path d r)" by (simp add: jd circular_out_def)
  from rdy m e' obtain img where
    lg: "Image_open lib st (icon_path d r) = Inr img" and dr: "files st (mipmap_dir d) = Some Dir"
    unfolding scale_ready_def by blast
  have dn: "dirname (icon_path d r) = mipmap_dir d"
    by (rule dirname_icon_path [OF ICON_SIZES_plain(1) [OF m']])
  have "mipmap_dir d \<notin> circular_outs"
    using circular_chk_apart [OF j] by (simp add: jd circular_chk_def)
  then have a1: "files st_a (mipmap_dir d) = files st (mipmap_dir d)" using ag by simp
  have a3: "files st_a (icon_path d r) = files st (icon_path d r)"
    using ag by (simp add: jd circular_out_def)
  have o: "Image_open lib st_a (icon_path d r) = Inr img" using lg Image_open_cong [OF a3, of lib] by simp
  from scale_icon_ok [OF o DENSITIES_plain(2) [OF m], of "icon_path d r"] Image_open_not_Dir [OF o]
  show "\<exists>st_b. scale_act lib j st_a = Inr st_b"
    using dr dn a1 by (simp add: scale_act_def jd)
qed

section \<open>The three main functions\<close>

lemma banners_info:
  "all_info circular_banner" "all_info circular_footer" "all_info splash_banner"
  "all_info splash_footer" "all_info scale_banner" "all_info scale_footer"
  by (simp_all add: all_info_def circular_banner_def circular_footer_def splash_banner_def
      splash_footer_def scale_banner_def scale_footer_def)

lemma prints_single: "prints st [l] = print st l"
  by simp

lemma circular_main_eq:
  "circular_main lib home st =
     (if \<not> path_exists st (circular_SOURCE_LOGO home)
      then Inr (print st (Error_source_not_found (circular_SOURCE_LOGO home)))
      else (case circular_loop lib (circular_SOURCE_LOGO home) ICON_SIZES (prints st circular_banner) of
              Inl e \<Rightarrow> Inl e
            | Inr st' \<Rightarrow> Inr (prints st' circular_footer)))"
  unfolding circular_main_def circular_banner_def circular_footer_def Let_def ..

lemma splash_main_eq:
  "splash_main lib home st =
     (if \<not> path_exists st (splash_SOURCE_LOGO home)
      then Inr (print st (Error_source_not_found (splash_SOURCE_LOGO home)))
      else (case splash_loop lib (splash_SOURCE_LOGO home) SPLASH_SIZES (prints st splash_banner) of
              Inl e \<Rightarrow> Inl e
            | Inr st' \<Rightarrow> Inr (prints st' splash_footer)))"
  unfolding splash_main_def splash_banner_def splash_footer_def Let_def prints_single ..

lemma scale_main_eq:
  "scale_main lib st =
     (case scale_loop lib ''android/app/src/main/res'' DENSITIES (prints st scale_banner) of
        Inl e \<Rightarrow> Inl e
      | Inr st' \<Rightarrow> Inr (prints st' scale_footer))"
  unfolding scale_main_def scale_banner_def scale_footer_def Let_def prints_single ..

lemma count_list_all_info:
  assumes "all_info ls" and "case w of Info t \<Rightarrow> False | _ \<Rightarrow> True"
  shows "count_list ls w = 0"
  using assms by (induction ls) (auto simp add: all_info_def split: line.splits)

lemma count_list_concat_map:
  "count_list (concat (map f js)) w = sum_list (map (\<lambda>j. count_list (f j) w) js)"
  by (induction js) simp_all

lemma printed_append: "console st' = console st @ ls \<Longrightarrow> printed st st' = ls"
  by (simp add: printed_def)

lemma Image_open_prints [simp]: "Image_open lib (prints st ls) p = Image_open lib st p"
  by (simp add: Image_open_def)

lemma Image_open_print [simp]: "Image_open lib (print st l) p = Image_open lib st p"
  by (simp add: Image_open_def)

subsection \<open>A run of the circular icon generator\<close>

lemma circular_main_loop:
  assumes "circular_main lib home st = Inr st'" and "path_exists st (circular_SOURCE_LOGO home)"
  obtains stL where
    "circular_loop lib (circular_SOURCE_LOGO home) ICON_SIZES (prints st circular_banner) = Inr stL"
    and "st' = prints stL circular_footer"
  using assms by (auto simp add: circular_main_eq split: sum.splits)

lemma circular_main_item:
  assumes run: "circular_main lib home st = Inr st'" and src: "path_exists st (circular_SOURCE_LOGO home)"
    and m: "(d, sz) \<in> set ICON_SIZES" and e: "path_exists st (mipmap_dir d)"
  shows "\<exists>logo. Image_open lib st (circular_SOURCE_LOGO home) = Inr logo \<and>
           files st (mipmap_dir d) = Some Dir \<and> files st (icon_path d r) \<noteq> Some Dir \<and>
           files st' (icon_path d r) = Some (File (encode lib (raster sz sz (spec_icon_pixel lib logo sz r))))"
proof -
  from run src obtain stL where
    l: "circular_loop lib (circular_SOURCE_LOGO home) ICON_SIZES (prints st circular_banner) = Inr stL"
    and s: "st' = prints stL circular_footer"
    by (rule circular_main_loop)
  have e': "path_exists (prints st circular_banner) (mipmap_dir d)" using e by simp
  from circular_item [OF l circular_source_apart m e', of r] s show ?thesis by simp
qed

lemma circular_main_frame:
  assumes run: "circular_main lib home st = Inr st'"
    and p: "\<forall>(d, sz) \<in> set ICON_SIZES. path_exists st (mipmap_dir d) \<longrightarrow> (\<forall>r. p \<noteq> icon_path d r)"
  shows "files st' p = files st p"
proof (cases "path_exists st (circular_SOURCE_LOGO home)")
  case False
  then show ?thesis using run by (auto simp add: circular_main_eq)
next
  case True
  from run True obtain stL where
    l: "circular_loop lib (circular_SOURCE_LOGO home) ICON_SIZES (prints st circular_banner) = Inr stL"
    and s: "st' = prints stL circular_footer"
    by (rule circular_main_loop)
  have "\<forall>(d, sz) \<in> set ICON_SIZES. path_exists (prints st circular_banner) (mipmap_dir d) \<longrightarrow> (\<forall>r. p \<noteq> icon_path d r)"
    using p by simp
  from circular_frame [OF l this] s show ?thesis by simp
qed

lemma circular_main_printed:
  assumes run: "circular_main lib home st = Inr st'" and src: "path_exists st (circular_SOURCE_LOGO home)"
  shows "printed st st' = circular_banner @
           concat (map (\<lambda>j. if path_exists st (circular_chk j) then [circular_msg j] else circular_skip j)
                     (circular_jobs ICON_SIZES)) @ circular_footer"
proof -
  from run src obtain stL where
    l: "circular_loop lib (circular_SOURCE_LOGO home) ICON_SIZES (prints st circular_banner) = Inr stL"
    and s: "st' = prints stL circular_footer"
    by (rule circular_main_loop)
  from circular_console [OF l] s show ?thesis
    by (intro printed_append) simp
qed

lemma circular_main_returns:
  assumes "path_exists st (circular_SOURCE_LOGO home)"
    and "circular_ready lib (circular_SOURCE_LOGO home) st"
  shows "\<exists>st'. circular_main lib home st = Inr st'"
proof -
  have "circular_ready lib (circular_SOURCE_LOGO home) (prints st circular_banner)"
    using assms(2) unfolding circular_ready_def by simp
  from circular_loop_returns [OF circular_source_apart this] obtain stL where
    "circular_loop lib (circular_SOURCE_LOGO home) ICON_SIZES (prints st circular_banner) = Inr stL" by blast
  then show ?thesis using assms(1) by (simp add: circular_main_eq)
qed

subsection \<open>A run of the splash logo generator\<close>

lemma splash_main_loop:
  assumes "splash_main lib home st = Inr st'" and "path_exists st (splash_SOURCE_LOGO home)"
  obtains stL where
    "splash_loop lib (splash_SOURCE_LOGO home) SPLASH_SIZES (prints st splash_banner) = Inr stL"
    and "st' = prints stL splash_footer"
  using assms by (auto simp add: splash_main_eq split: sum.splits)

lemma splash_main_item:
  assumes run: "splash_main lib home st = Inr st'" and src: "path_exists st (splash_SOURCE_LOGO home)"
    and m: "(d, sz) \<in> set SPLASH_SIZES" and e: "path_exists st (drawable_dir d dark)"
  shows "\<exists>img. Image_open lib st (splash_SOURCE_LOGO home) = Inr img \<and>
           files st (drawable_dir d dark) = Some Dir \<and> files st (splash_path d dark) \<noteq> Some Dir \<and>
           files st' (splash_path d dark) = Some (File (encode lib (raster sz sz (lanczos lib img sz sz))))"
proof -
  from run src obtain stL where
    l: "splash_loop lib (splash_SOURCE_LOGO home) SPLASH_SIZES (prints st splash_banner) = Inr stL"
    and s: "st' = prints stL splash_footer"
    by (rule splash_main_loop)
  have e': "path_exists (prints st splash_banner) (drawable_dir d dark)" using e by simp
  from splash_item [OF l splash_source_apart m e'] s show ?thesis by simp
qed

lemma splash_main_frame:
  assumes run: "splash_main lib home st = Inr st'"
    and p: "\<forall>(d, sz) \<in> set SPLASH_SIZES. \<forall>dark. path_exists st (drawable_dir d dark) \<longrightarrow> p \<noteq> splash_path d dark"
  shows "files st' p = files st p"
proof (cases "path_exists st (splash_SOURCE_LOGO home)")
  case False
  then show ?thesis using run by (auto simp add: splash_main_eq)
next
  case True
  from run True obtain stL where
    l: "splash_loop lib (splash_SOURCE_LOGO home) SPLASH_SIZES (prints st splash_banner) = Inr stL"
    and s: "st' = prints stL splash_footer"
    by (rule splash_main_loop)
  have "\<forall>(d, sz) \<in> set SPLASH_SIZES. \<forall>dark. path_exists (prints st splash_banner) (drawable_dir d dark) \<longrightarrow> p \<noteq> splash_path d dark"
    using p by simp
  from splash_frame [OF l this] s show ?thesis by simp
qed

lemma splash_main_printed:
  assumes run: "splash_main lib home st = Inr st'" and src: "path_exists st (splash_SOURCE_LOGO home)"
  shows "printed st st' = splash_banner @
           concat (map (\<lambda>j. if path_exists st (splash_chk j) then [splash_msg j] else splash_skip j)
                     (splash_jobs SPLASH_SIZES)) @ splash_footer"
proof -
  from run src obtain stL where
    l: "splash_loop lib (splash_SOURCE_LOGO home) SPLASH_SIZES (prints st splash_banner) = Inr stL"
    and s: "st' = prints stL splash_footer"
    by (rule splash_main_loop)
  from splash_console [OF l] s show ?thesis
    by (intro printed_append) simp
qed

lemma splash_main_returns:
  assumes "path_exists st (splash_SOURCE_LOGO home)"
    and "splash_ready lib (splash_SOURCE_LOGO home) st"
  shows "\<exists>st'. splash_main lib home st = Inr st'"
proof -
  have "splash_ready lib (splash_SOURCE_LOGO home) (prints st splash_banner)"
    using assms(2) unfolding splash_ready_def by simp
  from splash_loop_returns [OF splash_source_apart this] obtain stL where
    "splash_loop lib (splash_SOURCE_LOGO home) SPLASH_SIZES (prints st splash_banner) = Inr stL" by blast
  then show ?thesis using assms(1) by (simp add: splash_main_eq)
qed

subsection \<open>A run of the icon upscaler\<close>

lemma scale_main_loop:
  assumes "scale_main lib st = Inr st'"
  obtains stL where
    "scale_loop lib ''android/app/src/main/res'' DENSITIES (prints st scale_banner) = Inr stL"
    and "st' = prints stL scale_footer"
  using assms by (auto simp add: scale_main_eq split: sum.splits)

lemma scale_main_item:
  assumes run: "scale_main lib st = Inr st'"
    and m: "(d, sz) \<in> set DENSITIES" and e: "path_exists st (icon_path d r)"
  shows "\<exists>img. Image_open lib st (icon_path d r) = Inr img \<and> files st (mipmap_dir d) = Some Dir \<and>
           files st' (icon_path d r) = Some (File (encode lib (raster sz sz (spec_upscaled_pixel lib img sz))))"
proof -
  from run obtain stL where
    l: "scale_loop lib ''android/app/src/main/res'' DENSITIES (prints st scale_banner) = Inr stL"
    and s: "st' = prints stL scale_footer"
    by (rule scale_main_loop)
  have e': "path_exists (prints st scale_banner) (icon_path d r)" using e by simp
  from scale_item [OF l m e'] s show ?thesis by simp
qed

lemma scale_main_frame:
  assumes run: "scale_main lib st = Inr st'"
    and p: "\<forall>(d, sz) \<in> set DENSITIES. \<forall>r. path_exists st (icon_path d r) \<longrightarrow> p \<noteq> icon_path d r"
  shows "files st' p = files st p"
proof -
  from run obtain stL where
    l: "scale_loop lib ''android/app/src/main/res'' DENSITIES (prints st scale_banner) = Inr stL"
    and s: "st' = prints stL scale_footer"
    by (rule scale_main_loop)
  have "\<forall>(d, sz) \<in> set DENSITIES. \<forall>r. path_exists (prints st scale_banner) (icon_path d r) \<longrightarrow> p \<noteq> icon_path d r"
    using p by simp
  from scale_frame [OF l this] s show ?thesis by simp
qed

lemma scale_main_printed:
  assumes run: "scale_main lib st = Inr st'"
  shows "printed st st' = scale_banner @
           concat (map (\<lambda>j. if path_exists st (circular_out j) then [scale_msg j] else scale_skip j)
                     (circular_jobs ICON_SIZES)) @ scale_footer"
proof -
  from run obtain stL where
    l: "scale_loop lib ''android/app/src/main/res'' DENSITIES (prints st scale_banner) = Inr stL"
    and s: "st' = prints stL scale_footer"
    by (rule scale_main_loop)
  from scale_console [OF l] s show ?thesis
    by (intro printed_append) simp
qed

lemma scale_main_returns:
  assumes "scale_ready lib st"
  shows "\<exists>st'. scale_main lib st = Inr st'"
proof -
  have "scale_ready lib (prints st scale_banner)"
    using assms unfolding scale_ready_def by simp
  from scale_loop_returns [OF this] obtain stL where
    "scale_loop lib ''android/app/src/main/res'' DENSITIES (prints st scale_banner) = Inr stL" by blast
  then show ?thesis by (simp add: scale_main_eq)
qed

subsection \<open>Outputs and directories of the tables\<close>

lemma icon_path_in_outs: "(d, sz) \<in> set ICON_SIZES \<Longrightarrow> icon_path d r \<in> circular_outs"
  unfolding circular_outs_def using circular_job_in [of d sz r]
  by (metis (no_types, lifting) circular_out_def imageI old.prod.case)

lemma mipmap_dir_not_out: "(d, sz) \<in> set ICON_SIZES \<Longrightarrow> mipmap_dir d \<notin> circular_outs"
  using circular_chk_apart [OF circular_job_in [of d sz False]] by (simp add: circular_chk_def)

lemma splash_path_in_outs: "(d, sz) \<in> set SPLASH_SIZES \<Longrightarrow> splash_path d dark \<in> splash_outs"
proof -
  assume "(d, sz) \<in> set SPLASH_SIZES"
  then have "(d, sz, dark) \<in> set (splash_jobs SPLASH_SIZES)" by (simp add: splash_jobs_mem)
  then have "splash_out (d, sz, dark) \<in> splash_outs" unfolding splash_outs_def by (rule imageI)
  then show ?thesis by (simp add: splash_out_def)
qed

lemma drawable_dir_not_out: "(d, sz) \<in> set SPLASH_SIZES \<Longrightarrow> drawable_dir d dark \<notin> splash_outs"
proof -
  assume "(d, sz) \<in> set SPLASH_SIZES"
  then have "(d, sz, dark) \<in> set (splash_jobs SPLASH_SIZES)" by (simp add: splash_jobs_mem)
  from splash_chk_apart [OF this] show ?thesis by (simp add: splash_chk_def)
qed

subsection \<open>The reference world is ready for the three scripts\<close>

lemma demo_sources:
  "circular_SOURCE_LOGO demo_home = ''/home/dev/Desktop/RUNSTR LOGO FINAL/expo/icon.png''"
  "splash_SOURCE_LOGO demo_home = ''/home/dev/Desktop/RUNSTR LOGO FINAL/expo/splash-icon.png''"
  by (simp_all add: circular_SOURCE_LOGO_def splash_SOURCE_LOGO_def expanduser_def demo_home_def rstrip_sep_def)

lemma demo_sources_exist:
  "path_exists demo_world (circular_SOURCE_LOGO demo_home)"
  "path_exists demo_world (splash_SOURCE_LOGO demo_home)"
  unfolding demo_sources by (simp_all add: path_exists_def demo_world_def)

lemma demo_circular_ready: "circular_ready ref_lib (circular_SOURCE_LOGO demo_home) demo_world"
  unfolding circular_ready_def demo_sources demo_open_icon
  by (simp add: ICON_SIZES_def path_exists_def demo_world_def mipmap_dir_def icon_path_def
      path_join_def BASE_PATH_def)

lemma demo_splash_ready: "splash_ready ref_lib (splash_SOURCE_LOGO demo_home) demo_world"
  unfolding splash_ready_def demo_sources demo_open_splash
  by (simp add: SPLASH_SIZES_def path_exists_def demo_world_def drawable_dir_def splash_path_def
      path_join_def BASE_PATH_def)

lemma demo_scale_ready: "scale_ready ref_lib demo_world"
  unfolding scale_ready_def
  by (simp add: DENSITIES_def path_exists_def demo_world_def mipmap_dir_def icon_path_def
      path_join_def BASE_PATH_def Image_open_def ref_lib_def ref_decode_encode)

subsection \<open>Running a generator again\<close>

lemma circular_rerun:
  assumes run: "circular_main lib home st = Inr st1"
  shows "\<exists>st2. circular_main lib home st1 = Inr st2 \<and> files st2 = files st1"
proof (cases "path_exists st (circular_SOURCE_LOGO home)")
  case False
  then have "st1 = print st (Error_source_not_found (circular_SOURCE_LOGO home))"
    using run by (auto simp add: circular_main_eq)
  then show ?thesis using False by (simp add: circular_main_eq)
next
  case True
  let ?src = "circular_SOURCE_LOGO home"
  have fr: "\<And>p. p \<notin> circular_outs \<Longrightarrow> files st1 p = files st p"
  proof -
    fix p assume "p \<notin> circular_outs"
    then have "\<forall>(d, sz) \<in> set ICON_SIZES. path_exists st (mipmap_dir d) \<longrightarrow> (\<forall>r. p \<noteq> icon_path d r)"
      using icon_path_in_outs by blast
    from circular_main_frame [OF run this] show "files st1 p = files st p" .
  qed
  have src: "files st1 ?src = files st ?src" by (rule fr [OF circular_source_apart])
  have dirs: "\<And>d sz. (d, sz) \<in> set ICON_SIZES \<Longrightarrow> files st1 (mipmap_dir d) = files st (mipmap_dir d)"
    using fr mipmap_dir_not_out by blast
  have ex1: "path_exists st1 ?src" using True src by (simp add: path_exists_def)
  have rdy: "circular_ready lib ?src st1"
    unfolding circular_ready_def
  proof (intro ballI, clarify)
    fix d sz assume m: "(d, sz) \<in> set ICON_SIZES" and e1: "path_exists st1 (mipmap_dir d)"
    have e: "path_exists st (mipmap_dir d)" using e1 dirs [OF m] by (simp add: path_exists_def)
    have "\<forall>r. \<exists>logo. Image_open lib st ?src = Inr logo \<and> files st (mipmap_dir d) = Some Dir \<and>
            files st1 (icon_path d r) \<noteq> Some Dir"
    proof
      fix r
      from circular_main_item [OF run True m e, of r] show
        "\<exists>logo. Image_open lib st ?src = Inr logo \<and> files st (mipmap_dir d) = Some Dir \<and>
            files st1 (icon_path d r) \<noteq> Some Dir" by auto
    qed
    then show "(\<exists>logo. Image_open lib st1 ?src = Inr logo) \<and> files st1 (mipmap_dir d) = Some Dir \<and>
            (\<forall>is_round. files st1 (icon_path d is_round) \<noteq> Some Dir)"
      using Image_open_cong [OF src, of lib] dirs [OF m] by metis
  qed
  from circular_main_returns [OF ex1 rdy] obtain st2 where r2: "circular_main lib home st1 = Inr st2"
    by blast
  have "files st2 = files st1"
  proof
    fix p
    show "files st2 p = files st1 p"
    proof (cases "\<exists>d sz r. (d, sz) \<in> set ICON_SIZES \<and> path_exists st1 (mipmap_dir d) \<and> p = icon_path d r")
      case False
      then have "\<forall>(d, sz) \<in> set ICON_SIZES. path_exists st1 (mipmap_dir d) \<longrightarrow> (\<forall>r. p \<noteq> icon_path d r)"
        by blast
      from circular_main_frame [OF r2 this] show ?thesis .
    next
      case ex: True
      then obtain d sz r where m: "(d, sz) \<in> set ICON_SIZES" and e1: "path_exists st1 (mipmap_dir d)"
        and p: "p = icon_path d r" by blast
      have e: "path_exists st (mipmap_dir d)" using e1 dirs [OF m] by (simp add: path_exists_def)
      from circular_main_item [OF run True m e, of r] obtain logo where
        o1: "Image_open lib st ?src = Inr logo"
        and f1: "files st1 p = Some (File (encode lib (raster sz sz (spec_icon_pixel lib logo sz r))))"
        unfolding p by blast
      from circular_main_item [OF r2 ex1 m e1, of r] obtain logo2 where
        o2: "Image_open lib st1 ?src = Inr logo2"
        and f2: "files st2 p = Some (File (encode lib (raster sz sz (spec_icon_pixel lib logo2 sz r))))"
        unfolding p by blast
      have "logo2 = logo" using o1 o2 Image_open_cong [OF src, of lib] by simp
      then show ?thesis using f1 f2 by simp
    qed
  qed
  with r2 show ?thesis by blast
qed

lemma splash_rerun:
  assumes run: "splash_main lib home st = Inr st1"
  shows "\<exists>st2. splash_main lib home st1 = Inr st2 \<and> files st2 = files st1"
proof (cases "path_exists st (splash_SOURCE_LOGO home)")
  case False
  then have "st1 = print st (Error_source_not_found (splash_SOURCE_LOGO home))"
    using run by (auto simp add: splash_main_eq)
  then show ?thesis using False by (simp add: splash_main_eq)
next
  case True
  let ?src = "splash_SOURCE_LOGO home"
  have fr: "\<And>p. p \<notin> splash_outs \<Longrightarrow> files st1 p = files st p"
  proof -
    fix p assume "p \<notin> splash_outs"
    then have "\<forall>(d, sz) \<in> set SPLASH_SIZES. \<forall>dark. path_exists st (drawable_dir d dark) \<longrightarrow> p \<noteq> splash_path d dark"
      using splash_path_in_outs by blast
    from splash_main_frame [OF run this] show "files st1 p = files st p" .
  qed
  have src: "files st1 ?src = files st ?src" by (rule fr [OF splash_source_apart])
  have dirs: "\<And>d sz dark. (d, sz) \<in> set SPLASH_SIZES \<Longrightarrow> files st1 (drawable_dir d dark) = files st (drawable_dir d dark)"
    using fr drawable_dir_not_out by blast
  have ex1: "path_exists st1 ?src" using True src by (simp add: path_exists_def)
  have rdy: "splash_ready lib ?src st1"
    unfolding splash_ready_def
  proof (intro ballI, clarify)
    fix d sz dark assume m: "(d, sz) \<in> set SPLASH_SIZES" and e1: "path_exists st1 (drawable_dir d dark)"
    have e: "path_exists st (drawable_dir d dark)" using e1 dirs [OF m] by (simp add: path_exists_def)
    from splash_main_item [OF run True m e] have
      "\<exists>img. Image_open lib st ?src = Inr img \<and> files st (drawable_dir d dark) = Some Dir \<and>
            files st1 (splash_path d dark) \<noteq> Some Dir" by auto
    then show "(\<exists>img. Image_open lib st1 ?src = Inr img) \<and> files st1 (drawable_dir d dark) = Some Dir \<and>
            files st1 (splash_path d dark) \<noteq> Some Dir"
      using Image_open_cong [OF src, of lib] dirs [OF m] by metis
  qed
  from splash_main_returns [OF ex1 rdy] obtain st2 where r2: "splash_main lib home st1 = Inr st2"
    by blast
  have "files st2 = files st1"
  proof
    fix p
    show "files st2 p = files st1 p"
    proof (cases "\<exists>d sz dark. (d, sz) \<in> set SPLASH_SIZES \<and> path_exists st1 (drawable_dir d dark) \<and> p = splash_path d dark")
      case False
      then have "\<forall>(d, sz) \<in> set SPLASH_SIZES. \<forall>dark. path_exists st1 (drawable_dir d dark) \<longrightarrow> p \<noteq> splash_path d dark"
        by blast
      from splash_main_frame [OF r2 this] show ?thesis .
    next
      case ex: True
      then obtain d sz dark where m: "(d, sz) \<in> set SPLASH_SIZES" and e1: "path_exists st1 (drawable_dir d dark)"
        and p: "p = splash_path d dark" by blast
      have e: "path_exists st (drawable_dir d dark)" using e1 dirs [OF m] by (simp add: path_exists_def)
      from splash_main_item [OF run True m e] obtain img where
        o1: "Image_open lib st ?src = Inr img"
        and f1: "files st1 p = Some (File (encode lib (raster sz sz (lanczos lib img sz sz))))"
        unfolding p by blast
      from splash_main_item [OF r2 ex1 m e1] obtain img2 where
        o2: "Image_open lib st1 ?src = Inr img2"
        and f2: "files st2 p = Some (File (encode lib (raster sz sz (lanczos lib img2 sz sz))))"
        unfolding p by blast
      have "img2 = img" using o1 o2 Image_open_cong [OF src, of lib] by simp
      then show ?thesis using f1 f2 by simp
    qed
  qed
  with r2 show ?thesis by blast
qed

lemma ready_print [simp]:
  "circular_ready lib src (print st l) = circular_ready lib src st"
  "splash_ready lib src (print st l) = splash_ready lib src st"
  by (simp_all add: circular_ready_def splash_ready_def)

subsection \<open>Warnings printed, items processed and items skipped\<close>

lemma circular_warning_count:
  assumes "(d, sz) \<in> set ICON_SIZES"
  shows "count_list (concat (map (\<lambda>j. if path_exists st (circular_chk j) then [circular_msg j] else circular_skip j)
                               (circular_jobs ICON_SIZES))) (Warning_not_found (mipmap_dir d))
         = (if path_exists st (mipmap_dir d) then 0 else 1)"
  using ICON_SIZES_cases [OF assms]
  by (elim disjE)
     (simp_all add: count_list_concat_map circular_jobs_def ICON_SIZES_def circular_chk_def
        circular_msg_def circular_skip_def mipmap_dir_eq)

lemma count_skips:
  assumes "distinct (map c js)"
    and "\<forall>j \<in> set js. count_list (f j) w = (if Q (c j) then 0 else if c j = x then 1 else 0)"
  shows "count_list (concat (map f js)) w = (if x \<in> c ` set js \<and> \<not> Q x then 1 else 0)"
  using assms
proof (induction js)
  case Nil
  then show ?case by simp
next
  case (Cons j js)
  have ih: "count_list (concat (map f js)) w = (if x \<in> c ` set js \<and> \<not> Q x then 1 else 0)"
    using Cons by simp
  have hd: "count_list (f j) w = (if Q (c j) then 0 else if c j = x then 1 else 0)"
    using Cons.prems(2) by simp
  have nin: "c j \<notin> c ` set js" using Cons.prems(1) by simp
  show ?case
  proof (cases "c j = x")
    case True
    then have "x \<notin> c ` set js" using nin by simp
    then show ?thesis using ih hd True by simp
  next
    case False
    then show ?thesis using ih hd by auto
  qed
qed

lemma SPLASH_SIZES_cases:
  assumes "(d, sz) \<in> set SPLASH_SIZES"
  shows "(d, sz) = (''mdpi'', 300) \<or> (d, sz) = (''hdpi'', 450) \<or> (d, sz) = (''xhdpi'', 600) \<or>
      (d, sz) = (''xxhdpi'', 900) \<or> (d, sz) = (''xxxhdpi'', 1200)"
  using assms by (simp add: SPLASH_SIZES_def)

lemma splash_warning_count:
  assumes "(d, sz) \<in> set SPLASH_SIZES"
  shows "count_list (concat (map (\<lambda>j. if path_exists st (splash_chk j) then [splash_msg j] else splash_skip j)
                               (splash_jobs SPLASH_SIZES))) (Warning_not_found (drawable_dir d dark))
         = (if path_exists st (drawable_dir d dark) then 0 else 1)"
proof -
  have each: "\<forall>j \<in> set (splash_jobs SPLASH_SIZES).
          count_list (if path_exists st (splash_chk j) then [splash_msg j] else splash_skip j)
               (Warning_not_found (drawable_dir d dark))
             = (if path_exists st (splash_chk j) then 0 else if splash_chk j = drawable_dir d dark then 1 else 0)"
  proof
    fix j :: "string \<times> nat \<times> bool"
    obtain a b c where j: "j = (a, b, c)" by (cases j)
    show "count_list (if path_exists st (splash_chk j) then [splash_msg j] else splash_skip j)
               (Warning_not_found (drawable_dir d dark))
             = (if path_exists st (splash_chk j) then 0 else if splash_chk j = drawable_dir d dark then 1 else 0)"
      by (simp add: j splash_msg_def splash_skip_def splash_chk_def)
  qed
  have "(d, sz, dark) \<in> set (splash_jobs SPLASH_SIZES)" using assms by (simp add: splash_jobs_mem)
  then have "splash_chk (d, sz, dark) \<in> splash_chk ` set (splash_jobs SPLASH_SIZES)" by (rule imageI)
  then have p: "drawable_dir d dark \<in> splash_chk ` set (splash_jobs SPLASH_SIZES)"
    by (simp add: splash_chk_def)
  have dst: "distinct (map splash_chk (splash_jobs SPLASH_SIZES))"
    unfolding splash_chk_list by simp
  from count_skips [OF dst each] p show ?thesis by simp
qed

lemma scale_warning_count:
  assumes "(d, sz) \<in> set ICON_SIZES"
  shows "count_list (concat (map (\<lambda>j. if path_exists st (circular_out j) then [scale_msg j] else scale_skip j)
                               (circular_jobs ICON_SIZES))) (Warning_not_found (icon_path d r))
         = (if path_exists st (icon_path d r) then 0 else 1)"
proof -
  have each: "\<forall>j \<in> set (circular_jobs ICON_SIZES).
          count_list (if path_exists st (circular_out j) then [scale_msg j] else scale_skip j)
               (Warning_not_found (icon_path d r))
             = (if path_exists st (circular_out j) then 0 else if circular_out j = icon_path d r then 1 else 0)"
  proof
    fix j :: "string \<times> nat \<times> bool"
    obtain a b c where j: "j = (a, b, c)" by (cases j)
    show "count_list (if path_exists st (circular_out j) then [scale_msg j] else scale_skip j)
               (Warning_not_found (icon_path d r))
             = (if path_exists st (circular_out j) then 0 else if circular_out j = icon_path d r then 1 else 0)"
      by (simp add: j scale_msg_def scale_skip_def circular_out_def)
  qed
  have p: "icon_path d r \<in> circular_out ` set (circular_jobs ICON_SIZES)"
    using icon_path_in_outs [OF assms, of r] by (simp add: circular_outs_def)
  have dst: "distinct (map circular_out (circular_jobs ICON_SIZES))"
    unfolding circular_out_list by simp
  from count_skips [OF dst each] p show ?thesis by simp
qed

lemma count_list_printed:
  assumes "printed st st' = b @ xs @ f" and "all_info b" and "all_info f"
  shows "count_list (printed st st') (Warning_not_found p) = count_list xs (Warning_not_found p)"
  using assms by (simp add: count_list_all_info)

lemma icon_path_inj:
  assumes "(d, sz) \<in> set ICON_SIZES" and "(d', sz') \<in> set ICON_SIZES" and "icon_path d r = icon_path d' r'"
  shows "d = d' \<and> r = r'"
proof -
  have "inj_on circular_out (set (circular_jobs ICON_SIZES))"
    using circular_apart by (simp add: apart_def distinct_map)
  moreover have "circular_out (d, sz, r) = circular_out (d', sz', r')"
    using assms(3) by (simp add: circular_out_def)
  ultimately have "(d, sz, r) = (d', sz', r')"
    using circular_job_in [OF assms(1), of r] circular_job_in [OF assms(2), of r'] by (rule inj_onD)
  then show ?thesis by simp
qed

lemma splash_path_inj:
  assumes "(d, sz) \<in> set SPLASH_SIZES" and "(d', sz') \<in> set SPLASH_SIZES"
    and "splash_path d dark = splash_path d' dark'"
  shows "d = d' \<and> dark = dark'"
proof -
  have "inj_on splash_out (set (splash_jobs SPLASH_SIZES))"
    using splash_apart by (simp add: apart_def distinct_map)
  moreover have "splash_out (d, sz, dark) = splash_out (d', sz', dark')"
    using assms(3) by (simp add: splash_out_def)
  moreover have "(d, sz, dark) \<in> set (splash_jobs SPLASH_SIZES)" "(d', sz', dark') \<in> set (splash_jobs SPLASH_SIZES)"
    using assms(1,2) by (simp_all add: splash_jobs_mem)
  ultimately have "(d, sz, dark) = (d', sz', dark')" by (rule inj_onD)
  then show ?thesis by simp
qed

lemma create_circular_icon_at:
  assumes "Image_open lib st src = Inr logo" and "0 < spec_logo_edge sz"
    and "files st (dirname outp) = Some Dir" and "files st outp \<noteq> Some Dir"
  shows "\<exists>st1. create_circular_icon lib src outp sz r st = Inr st1 \<and>
           files st1 outp = Some (File (encode lib (raster sz sz (spec_icon_pixel lib logo sz r))))"
  using assms by (simp add: create_circular_icon_closed save_ok)

lemma generate_splash_logo_at:
  assumes "Image_open lib st src = Inr img" and "0 < sz"
    and "files st (dirname outp) = Some Dir" and "files st outp \<noteq> Some Dir"
  shows "\<exists>st1. generate_splash_logo lib src outp sz st = Inr st1 \<and>
           files st1 outp = Some (File (encode lib (raster sz sz (lanczos lib img sz sz))))"
  using assms by (simp add: generate_splash_logo_closed save_ok)

lemma scale_icon_at:
  assumes "Image_open lib st inp = Inr img" and "0 < n"
    and "files st (dirname outp) = Some Dir" and "files st outp \<noteq> Some Dir"
  shows "\<exists>st1. scale_icon lib inp outp n st = Inr st1 \<and>
           files st1 outp = Some (File (encode lib (raster n n (spec_upscaled_pixel lib img n))))"
  using assms by (simp add: scale_icon_closed save_ok)

lemma circular_main_skips:
  assumes run: "circular_main lib home st = Inr st'" and src: "path_exists st (circular_SOURCE_LOGO home)"
    and m: "(d, sz) \<in> set ICON_SIZES"
  shows "count_list (printed st st') (Warning_not_found (mipmap_dir d))
           = (if path_exists st (mipmap_dir d) then 0 else 1)"
    and "path_exists st (mipmap_dir d) \<Longrightarrow>
           \<exists>st1. create_circular_icon lib (circular_SOURCE_LOGO home) (icon_path d r) sz r st = Inr st1 \<and>
             files st' (icon_path d r) = files st1 (icon_path d r)"
    and "\<not> path_exists st (mipmap_dir d) \<Longrightarrow> files st' (icon_path d r) = files st (icon_path d r)"
proof -
  show "count_list (printed st st') (Warning_not_found (mipmap_dir d))
           = (if path_exists st (mipmap_dir d) then 0 else 1)"
    unfolding count_list_printed [OF circular_main_printed [OF run src] banners_info(1) banners_info(2)]
    by (rule circular_warning_count [OF m])
next
  assume e: "path_exists st (mipmap_dir d)"
  from circular_main_item [OF run src m e, of r] obtain logo where
    o: "Image_open lib st (circular_SOURCE_LOGO home) = Inr logo"
    and dr: "files st (mipmap_dir d) = Some Dir" and nd: "files st (icon_path d r) \<noteq> Some Dir"
    and f: "files st' (icon_path d r) = Some (File (encode lib (raster sz sz (spec_icon_pixel lib logo sz r))))"
    by blast
  have dn: "files st (dirname (icon_path d r)) = Some Dir"
    using dr dirname_icon_path [OF ICON_SIZES_plain(1) [OF m]] by simp
  from create_circular_icon_at [OF o ICON_SIZES_plain(2) [OF m] dn nd, of r] f
  show "\<exists>st1. create_circular_icon lib (circular_SOURCE_LOGO home) (icon_path d r) sz r st = Inr st1 \<and>
             files st' (icon_path d r) = files st1 (icon_path d r)" by auto
next
  assume ne: "\<not> path_exists st (mipmap_dir d)"
  have "\<forall>(d', sz') \<in> set ICON_SIZES. path_exists st (mipmap_dir d') \<longrightarrow> (\<forall>r'. icon_path d r \<noteq> icon_path d' r')"
  proof (intro ballI, clarify)
    fix d' sz' r' assume m2: "(d', sz') \<in> set ICON_SIZES" and e2: "path_exists st (mipmap_dir d')"
      and eq: "icon_path d r = icon_path d' r'"
    from icon_path_inj [OF m m2 eq] have "d = d'" by simp
    with ne e2 show False by simp
  qed
  from circular_main_frame [OF run this] show "files st' (icon_path d r) = files st (icon_path d r)" .
qed

lemma splash_main_skips:
  assumes run: "splash_main lib home st = Inr st'" and src: "path_exists st (splash_SOURCE_LOGO home)"
    and m: "(d, sz) \<in> set SPLASH_SIZES"
  shows "count_list (printed st st') (Warning_not_found (drawable_dir d dark))
           = (if path_exists st (drawable_dir d dark) then 0 else 1)"
    and "path_exists st (drawable_dir d dark) \<Longrightarrow>
           \<exists>st1. generate_splash_logo lib (splash_SOURCE_LOGO home) (splash_path d dark) sz st = Inr st1 \<and>
             files st' (splash_path d dark) = files st1 (splash_path d dark)"
    and "\<not> path_exists st (drawable_dir d dark) \<Longrightarrow> files st' (splash_path d dark) = files st (splash_path d dark)"
proof -
  show "count_list (printed st st') (Warning_not_found (drawable_dir d dark))
           = (if path_exists st (drawable_dir d dark) then 0 else 1)"
    unfolding count_list_printed [OF splash_main_printed [OF run src] banners_info(3) banners_info(4)]
    by (rule splash_warning_count [OF m])
next
  assume e: "path_exists st (drawable_dir d dark)"
  from splash_main_item [OF run src m e] obtain img where
    o: "Image_open lib st (splash_SOURCE_LOGO home) = Inr img"
    and dr: "files st (drawable_dir d dark) = Some Dir" and nd: "files st (splash_path d dark) \<noteq> Some Dir"
    and f: "files st' (splash_path d dark) = Some (File (encode lib (raster sz sz (lanczos lib img sz sz))))"
    by blast
  have dn: "files st (dirname (splash_path d dark)) = Some Dir"
    using dr dirname_splash_path [OF SPLASH_SIZES_plain(1) [OF m]] by simp
  from generate_splash_logo_at [OF o SPLASH_SIZES_plain(2) [OF m] dn nd] f
  show "\<exists>st1. generate_splash_logo lib (splash_SOURCE_LOGO home) (splash_path d dark) sz st = Inr st1 \<and>
             files st' (splash_path d dark) = files st1 (splash_path d dark)" by auto
next
  assume ne: "\<not> path_exists st (drawable_dir d dark)"
  have "\<forall>(d', sz') \<in> set SPLASH_SIZES. \<forall>dark'. path_exists st (drawable_dir d' dark') \<longrightarrow>
          splash_path d dark \<noteq> splash_path d' dark'"
  proof (intro ballI, clarify)
    fix d' sz' dark' assume m2: "(d', sz') \<in> set SPLASH_SIZES" and e2: "path_exists st (drawable_dir d' dark')"
      and eq: "splash_path d dark = splash_path d' dark'"
    from splash_path_inj [OF m m2 eq] have "d = d'" "dark = dark'" by simp_all
    with ne e2 show False by simp
  qed
  from splash_main_frame [OF run this] show "files st' (splash_path d dark) = files st (splash_path d dark)" .
qed

lemma scale_main_skips:
  assumes run: "scale_main lib st = Inr st'" and m: "(d, sz) \<in> set DENSITIES"
  shows "count_list (printed st st') (Warning_not_found (icon_path d r))
           = (if path_exists st (icon_path d r) then 0 else 1)"
    and "path_exists st (icon_path d r) \<Longrightarrow>
           \<exists>st1. scale_icon lib (icon_path d r) (icon_path d r) sz st = Inr st1 \<and>
             files st' (icon_path d r) = files st1 (icon_path d r)"
    and "\<not> path_exists st (icon_path d r) \<Longrightarrow> files st' (icon_path d r) = files st (icon_path d r)"
proof -
  have m': "(d, sz) \<in> set ICON_SIZES" using m by (simp add: DENSITIES_eq)
  show "count_list (printed st st') (Warning_not_found (icon_path d r))
           = (if path_exists st (icon_path d r) then 0 else 1)"
    unfolding count_list_printed [OF scale_main_printed [OF run] banners_info(5) banners_info(6)]
    by (rule scale_warning_count [OF m'])
next
  have m': "(d, sz) \<in> set ICON_SIZES" using m by (simp add: DENSITIES_eq)
  assume e: "path_exists st (icon_path d r)"
  from scale_main_item [OF run m e] obtain img where
    o: "Image_open lib st (icon_path d r) = Inr img"
    and dr: "files st (mipmap_dir d) = Some Dir"
    and f: "files st' (icon_path d r) = Some (File (encode lib (raster sz sz (spec_upscaled_pixel lib img sz))))"
    by blast
  have dn: "files st (dirname (icon_path d r)) = Some Dir"
    using dr dirname_icon_path [OF ICON_SIZES_plain(1) [OF m']] by simp
  from scale_icon_at [OF o DENSITIES_plain(2) [OF m] dn Image_open_not_Dir [OF o]] f
  show "\<exists>st1. scale_icon lib (icon_path d r) (icon_path d r) sz st = Inr st1 \<and>
             files st' (icon_path d r) = files st1 (icon_path d r)" by auto
next
  have m': "(d, sz) \<in> set ICON_SIZES" using m by (simp add: DENSITIES_eq)
  assume ne: "\<not> path_exists st (icon_path d r)"
  have "\<forall>(d', sz') \<in> set DENSITIES. \<forall>r'. path_exists st (icon_path d' r') \<longrightarrow> icon_path d r \<noteq> icon_path d' r'"
  proof (intro ballI, clarify)
    fix d' sz' r' assume e2: "path_exists st (icon_path d' r')" and eq: "icon_path d r = icon_path d' r'"
    with ne show False by simp
  qed
  from scale_main_frame [OF run this] show "files st' (icon_path d r) = files st (icon_path d r)" .
qed

section \<open>Running the upscaler twice\<close>

text \<open>
  A first reason why a second run changes the file again lies in the paste alone. On a
  uniformly half transparent icon each run pastes the enlarged icon through its own
  alpha, which takes the alpha from 128 to 64 and then to 16.
\<close>

lemma upscaling_twice_fades:
  assumes "lossless lib" and "alpha_preserving lib" and "0 < canvas_size" and "dirname icon_file \<noteq> icon_file"
  shows "\<exists>icon st1 st2.
           scale_icon lib icon_file icon_file canvas_size
             \<lparr>files = [dirname icon_file \<mapsto> Dir, icon_file \<mapsto> File (encode lib icon)], console = []\<rparr> = Inr st1 \<and>
           scale_icon lib icon_file icon_file canvas_size st1 = Inr st2 \<and>
           files st2 icon_file \<noteq> files st1 icon_file"
proof -
  let ?n = canvas_size
  let ?p = icon_file
  define icon :: "pixel image" where "icon = raster ?n ?n (\<lambda>x y. RGBA 0 0 0 128)"
  define st :: world where
    "st = \<lparr>files = [dirname ?p \<mapsto> Dir, ?p \<mapsto> File (encode lib icon)], console = []\<rparr>"
  define img1 where "img1 = raster ?n ?n (spec_upscaled_pixel lib icon ?n)"
  define img2 where "img2 = raster ?n ?n (spec_upscaled_pixel lib img1 ?n)"
  define st1 where "st1 = print (st\<lparr>files := (files st)(?p \<mapsto> File (encode lib img1))\<rparr>) (Scaled (basename ?p) ?n)"
  define st2 where "st2 = print (st1\<lparr>files := (files st1)(?p \<mapsto> File (encode lib img2))\<rparr>) (Scaled (basename ?p) ?n)"
  have rt: "\<And>img. decode lib (encode lib img) = Some img" using assms(1) by (simp add: lossless_def)
  have n0: "?n \<noteq> 0" using assms(3) by simp
  have o0: "Image_open lib st ?p = Inr icon"
    by (rule Image_open_encoded) (simp_all add: st_def rt)
  have d0: "files st (dirname ?p) = Some Dir" "files st ?p \<noteq> Some Dir"
    using assms(4) by (simp_all add: st_def)
  have r1: "scale_icon lib ?p ?p ?n st = Inr st1"
    using o0 n0 d0 by (simp add: scale_icon_closed save_ok st1_def img1_def)
  have o1: "Image_open lib st1 ?p = Inr img1"
    by (rule Image_open_encoded) (simp_all add: st1_def rt)
  have d1: "files st1 (dirname ?p) = Some Dir" "files st1 ?p \<noteq> Some Dir"
    using assms(4) d0 by (simp_all add: st1_def)
  have r2: "scale_icon lib ?p ?p ?n st1 = Inr st2"
    using o1 n0 d1 by (simp add: scale_icon_closed save_ok st2_def img2_def)
  have a1: "\<forall>x < ?n. \<forall>y < ?n. alpha (spec_upscaled_pixel lib icon ?n x y) = 64"
    unfolding icon_def using upscaled_alpha [OF assms(2) assms(3), of "\<lambda>x y. RGBA 0 0 0 128" 128]
    by (simp add: blend_half)
  have a2: "\<forall>x < ?n. \<forall>y < ?n. alpha (spec_upscaled_pixel lib img1 ?n x y) = 16"
    unfolding img1_def using upscaled_alpha [OF assms(2) assms(3) a1] by (simp add: blend_half)
  have "alpha (getpixel img1 0 0) = 64" using a1 assms(3) by (simp add: img1_def)
  moreover have "alpha (getpixel img2 0 0) = 16" using a2 assms(3) by (simp add: img2_def)
  ultimately have "img1 \<noteq> img2" by auto
  then have "encode lib img2 \<noteq> encode lib img1" using encode_inj [OF assms(1) [unfolded lossless_def]] by blast
  then have "files st2 ?p \<noteq> files st1 ?p" by (simp add: st2_def st1_def)
  with r1 r2 show ?thesis unfolding st_def by blast
qed







section \<open>The claims\<close>

text \<open>
  C1. After a successful run of each of the three scripts, for every density of its
  table whose directory (the two generators) or icon file (the upscaler) exists, the
  file at the path of that density is the one that the iteration's call saved, and it
  holds a square image whose width and height are the table's pixel value for that
  density.
\<close>

theorem run_saves_square_files:
  "(circular_main lib home st = Inr st' \<and> path_exists st (circular_SOURCE_LOGO home) \<longrightarrow>
      (\<forall>(density, sz) \<in> set ICON_SIZES. \<forall>is_round. path_exists st (mipmap_dir density) \<longrightarrow>
         (\<exists>st1 img. create_circular_icon lib (circular_SOURCE_LOGO home)
                       (icon_path density is_round) sz is_round st = Inr st1 \<and>
                     files st' (icon_path density is_round) = files st1 (icon_path density is_round) \<and>
                     files st' (icon_path density is_round) = Some (File (encode lib img)) \<and>
                     square img sz))) \<and>
   (splash_main lib home st = Inr st' \<and> path_exists st (splash_SOURCE_LOGO home) \<longrightarrow>
      (\<forall>(density, sz) \<in> set SPLASH_SIZES. \<forall>dark. path_exists st (drawable_dir density dark) \<longrightarrow>
         (\<exists>st1 img. generate_splash_logo lib (splash_SOURCE_LOGO home)
                       (splash_path density dark) sz st = Inr st1 \<and>
                     files st' (splash_path density dark) = files st1 (splash_path density dark) \<and>
                     files st' (splash_path density dark) = Some (File (encode lib img)) \<and>
                     square img sz))) \<and>
   (scale_main lib st = Inr st' \<longrightarrow>
      (\<forall>(density, sz) \<in> set DENSITIES. \<forall>is_round. path_exists st (icon_path density is_round) \<longrightarrow>
         (\<exists>st1 img. scale_icon lib (icon_path density is_round) (icon_path density is_round) sz st = Inr st1 \<and>
                     files st' (icon_path density is_round) = files st1 (icon_path density is_round) \<and>
                     files st' (icon_path density is_round) = Some (File (encode lib img)) \<and>
                     square img sz)))"
proof (intro conjI impI ballI; clarify)
  fix d sz r
  assume run: "circular_main lib home st = Inr st'" and src: "path_exists st (circular_SOURCE_LOGO home)"
    and m: "(d, sz) \<in> set ICON_SIZES" and e: "path_exists st (mipmap_dir d)"
  from circular_main_item [OF run src m e, of r] obtain logo where
    f: "files st' (icon_path d r) = Some (File (encode lib (raster sz sz (spec_icon_pixel lib logo sz r))))"
    by blast
  from circular_main_skips(2) [OF run src m e, of r] obtain st1 where
    "create_circular_icon lib (circular_SOURCE_LOGO home) (icon_path d r) sz r st = Inr st1"
    "files st' (icon_path d r) = files st1 (icon_path d r)" by blast
  with f square_raster [of sz "spec_icon_pixel lib logo sz r"]
  show "\<exists>st1 img. create_circular_icon lib (circular_SOURCE_LOGO home) (icon_path d r) sz r st = Inr st1 \<and>
          files st' (icon_path d r) = files st1 (icon_path d r) \<and>
          files st' (icon_path d r) = Some (File (encode lib img)) \<and> square img sz"
    by blast
next
  fix d sz dark
  assume run: "splash_main lib home st = Inr st'" and src: "path_exists st (splash_SOURCE_LOGO home)"
    and m: "(d, sz) \<in> set SPLASH_SIZES" and e: "path_exists st (drawable_dir d dark)"
  from splash_main_item [OF run src m e] obtain src_img where
    f: "files st' (splash_path d dark) = Some (File (encode lib (raster sz sz (lanczos lib src_img sz sz))))"
    by blast
  from splash_main_skips(2) [OF run src m e] obtain st1 where
    "generate_splash_logo lib (splash_SOURCE_LOGO home) (splash_path d dark) sz st = Inr st1"
    "files st' (splash_path d dark) = files st1 (splash_path d dark)" by blast
  with f square_raster [of sz "lanczos lib src_img sz sz"]
  show "\<exists>st1 img. generate_splash_logo lib (splash_SOURCE_LOGO home) (splash_path d dark) sz st = Inr st1 \<and>
          files st' (splash_path d dark) = files st1 (splash_path d dark) \<and>
          files st' (splash_path d dark) = Some (File (encode lib img)) \<and> square img sz"
    by blast
next
  fix d sz r
  assume run: "scale_main lib st = Inr st'"
    and m: "(d, sz) \<in> set DENSITIES" and e: "path_exists st (icon_path d r)"
  from scale_main_item [OF run m e] obtain icon where
    f: "files st' (icon_path d r) = Some (File (encode lib (raster sz sz (spec_upscaled_pixel lib icon sz))))"
    by blast
  from scale_main_skips(2) [OF run m e] obtain st1 where
    "scale_icon lib (icon_path d r) (icon_path d r) sz st = Inr st1"
    "files st' (icon_path d r) = files st1 (icon_path d r)" by blast
  with f square_raster [of sz "spec_upscaled_pixel lib icon sz"]
  show "\<exists>st1 img. scale_icon lib (icon_path d r) (icon_path d r) sz st = Inr st1 \<and>
          files st' (icon_path d r) = files st1 (icon_path d r) \<and>
          files st' (icon_path d r) = Some (File (encode lib img)) \<and> square img sz"
    by blast
qed

theorem run_saves_square_files_witness:
  "path_exists demo_world (circular_SOURCE_LOGO demo_home) \<and>
   path_exists demo_world (splash_SOURCE_LOGO demo_home) \<and>
   (''xxxhdpi'', 192) \<in> set ICON_SIZES \<and> (''hdpi'', 450) \<in> set SPLASH_SIZES \<and> (''mdpi'', 48) \<in> set DENSITIES \<and>
   path_exists demo_world (mipmap_dir ''xxxhdpi'') \<and>
   path_exists demo_world (drawable_dir ''hdpi'' False) \<and>
   path_exists demo_world (icon_path ''mdpi'' False) \<and>
   icon_path ''xxxhdpi'' True = ''android/app/src/main/res/mipmap-xxxhdpi/ic_launcher_round.png'' \<and>
   splash_path ''hdpi'' False = ''android/app/src/main/res/drawable-hdpi/splashscreen_logo.png'' \<and>
   icon_path ''mdpi'' False = ''android/app/src/main/res/mipmap-mdpi/ic_launcher.png'' \<and>
   (\<exists>st'. circular_main ref_lib demo_home demo_world = Inr st' \<and>
      (\<exists>st1 img. create_circular_icon ref_lib (circular_SOURCE_LOGO demo_home)
                    (icon_path ''xxxhdpi'' True) 192 True demo_world = Inr st1 \<and>
                  files st' (icon_path ''xxxhdpi'' True) = files st1 (icon_path ''xxxhdpi'' True) \<and>
                  files st' (icon_path ''xxxhdpi'' True) = Some (File (encode ref_lib img)) \<and>
                  square img 192)) \<and>
   (\<exists>st'. splash_main ref_lib demo_home demo_world = Inr st' \<and>
      (\<exists>st1 img. generate_splash_logo ref_lib (splash_SOURCE_LOGO demo_home)
                    (splash_path ''hdpi'' False) 450 demo_world = Inr st1 \<and>
                  files st' (splash_path ''hdpi'' False) = files st1 (splash_path ''hdpi'' False) \<and>
                  files st' (splash_path ''hdpi'' False) = Some (File (encode ref_lib img)) \<and>
                  square img 450)) \<and>
   (\<exists>st'. scale_main ref_lib demo_world = Inr st' \<and>
      (\<exists>st1 img. scale_icon ref_lib (icon_path ''mdpi'' False) (icon_path ''mdpi'' False) 48 demo_world = Inr st1 \<and>
                  files st' (icon_path ''mdpi'' False) = files st1 (icon_path ''mdpi'' False) \<and>
                  files st' (icon_path ''mdpi'' False) = Some (File (encode ref_lib img)) \<and>
                  square img 48))"
proof -
  have m: "(''xxxhdpi'', 192) \<in> set ICON_SIZES" "(''hdpi'', 450) \<in> set SPLASH_SIZES"
    "(''mdpi'', 48) \<in> set DENSITIES"
    by (simp_all add: ICON_SIZES_def SPLASH_SIZES_def DENSITIES_def)
  have e: "path_exists demo_world (mipmap_dir ''xxxhdpi'')" "path_exists demo_world (drawable_dir ''hdpi'' False)"
    by (simp_all add: path_exists_def demo_world_def mipmap_dir_eq drawable_dir_eq)
  have p: "icon_path ''xxxhdpi'' True = ''android/app/src/main/res/mipmap-xxxhdpi/ic_launcher_round.png''"
    "splash_path ''hdpi'' False = ''android/app/src/main/res/drawable-hdpi/splashscreen_logo.png''"
    "icon_path ''mdpi'' False = ''android/app/src/main/res/mipmap-mdpi/ic_launcher.png''"
    by (simp_all add: icon_path_eq splash_path_eq mipmap_dir_eq drawable_dir_eq)
  have f: "path_exists demo_world (icon_path ''mdpi'' False)"
    unfolding p by (simp add: path_exists_def demo_world_def)
  from circular_main_returns [OF demo_sources_exist(1) demo_circular_ready] obtain s1 where
    s1: "circular_main ref_lib demo_home demo_world = Inr s1" by blast
  from splash_main_returns [OF demo_sources_exist(2) demo_splash_ready] obtain s2 where
    s2: "splash_main ref_lib demo_home demo_world = Inr s2" by blast
  from scale_main_returns [OF demo_scale_ready] obtain s3 where
    s3: "scale_main ref_lib demo_world = Inr s3" by blast
  from run_saves_square_files [of ref_lib demo_home demo_world s1] s1 demo_sources_exist(1) m(1) e(1)
  have c1: "\<exists>st1 img. create_circular_icon ref_lib (circular_SOURCE_LOGO demo_home)
                    (icon_path ''xxxhdpi'' True) 192 True demo_world = Inr st1 \<and>
                  files s1 (icon_path ''xxxhdpi'' True) = files st1 (icon_path ''xxxhdpi'' True) \<and>
                  files s1 (icon_path ''xxxhdpi'' True) = Some (File (encode ref_lib img)) \<and>
                  square img 192"
    by blast
  from run_saves_square_files [of ref_lib demo_home demo_world s2] s2 demo_sources_exist(2) m(2) e(2)
  have c2: "\<exists>st1 img. generate_splash_logo ref_lib (splash_SOURCE_LOGO demo_home)
                    (splash_path ''hdpi'' False) 450 demo_world = Inr st1 \<and>
                  files s2 (splash_path ''hdpi'' False) = files st1 (splash_path ''hdpi'' False) \<and>
                  files s2 (splash_path ''hdpi'' False) = Some (File (encode ref_lib img)) \<and>
                  square img 450"
    by blast
  from run_saves_square_files [of ref_lib _ demo_world s3] s3 m(3) f
  have c3: "\<exists>st1 img. scale_icon ref_lib (icon_path ''mdpi'' False) (icon_path ''mdpi'' False) 48 demo_world = Inr st1 \<and>
                  files s3 (icon_path ''mdpi'' False) = files st1 (icon_path ''mdpi'' False) \<and>
                  files s3 (icon_path ''mdpi'' False) = Some (File (encode ref_lib img)) \<and>
                  square img 48"
    by blast
  from s1 c1 have w1: "\<exists>st'. circular_main ref_lib demo_home demo_world = Inr st' \<and>
      (\<exists>st1 img. create_circular_icon ref_lib (circular_SOURCE_LOGO demo_home)
                    (icon_path ''xxxhdpi'' True) 192 True demo_world = Inr st1 \<and>
                  files st' (icon_path ''xxxhdpi'' True) = files st1 (icon_path ''xxxhdpi'' True) \<and>
                  files st' (icon_path ''xxxhdpi'' True) = Some (File (encode ref_lib img)) \<and>
                  square img 192)" by blast
  from s2 c2 have w2: "\<exists>st'. splash_main ref_lib demo_home demo_world = Inr st' \<and>
      (\<exists>st1 img. generate_splash_logo ref_lib (splash_SOURCE_LOGO demo_home)
                    (splash_path ''hdpi'' False) 450 demo_world = Inr st1 \<and>
                  files st' (splash_path ''hdpi'' False) = files st1 (splash_path ''hdpi'' False) \<and>
                  files st' (splash_path ''hdpi'' False) = Some (File (encode ref_lib img)) \<and>
                  square img 450)" by blast
  from s3 c3 have w3: "\<exists>st'. scale_main ref_lib demo_world = Inr st' \<and>
      (\<exists>st1 img. scale_icon ref_lib (icon_path ''mdpi'' False) (icon_path ''mdpi'' False) 48 demo_world = Inr st1 \<and>
                  files st' (icon_path ''mdpi'' False) = files st1 (icon_path ''mdpi'' False) \<and>
                  files st' (icon_path ''mdpi'' False) = Some (File (encode ref_lib img)) \<and>
                  square img 48)" by blast
  from demo_sources_exist m e f p w1 w2 w3 show ?thesis by (intro conjI)
qed

text \<open>
  C2. For every target size and every source logo, the round icon that
  \<open>create_circular_icon\<close> saves has alpha zero at every pixel of the canvas that the
  circle inscribed in the canvas (the ellipse of bounding box \<open>[0, 0, size - 1, size - 1]\<close>)
  does not cover.
\<close>

theorem round_icon_transparent_outside_circle:
  assumes "create_circular_icon lib source_path output_path sz True st = Inr st'"
  shows "\<exists>img. files st' output_path = Some (File (encode lib img)) \<and> square img sz \<and>
           (\<forall>x < sz. \<forall>y < sz. \<not> ellipse lib (0, 0, int sz - 1, int sz - 1) (int x, int y) \<longrightarrow>
              alpha (getpixel img x y) = 0)"
proof -
  from create_circular_icon_Inr [OF assms] obtain logo where
    f: "files st' = (files st)(output_path \<mapsto> File (encode lib (raster sz sz (spec_icon_pixel lib logo sz True))))"
    by blast
  let ?img = "raster sz sz (spec_icon_pixel lib logo sz True)"
  have "files st' output_path = Some (File (encode lib ?img))" using f by simp
  moreover have "square ?img sz" by simp
  moreover have "\<forall>x < sz. \<forall>y < sz. \<not> ellipse lib (0, 0, int sz - 1, int sz - 1) (int x, int y) \<longrightarrow>
              alpha (getpixel ?img x y) = 0"
    by (simp add: spec_icon_pixel_def)
  ultimately show ?thesis by blast
qed

theorem round_icon_transparent_outside_circle_witness:
  "\<exists>st'. create_circular_icon ref_lib ''/home/dev/Desktop/RUNSTR LOGO FINAL/expo/icon.png''
            ''android/app/src/main/res/mipmap-xxxhdpi/ic_launcher_round.png'' 192 True demo_world = Inr st' \<and>
     (\<exists>img. files st' ''android/app/src/main/res/mipmap-xxxhdpi/ic_launcher_round.png''
               = Some (File (encode ref_lib img)) \<and> square img 192 \<and>
        (\<forall>x < 192. \<forall>y < 192. \<not> ellipse ref_lib (0, 0, int 192 - 1, int 192 - 1) (int x, int y) \<longrightarrow>
              alpha (getpixel img x y) = 0))"
proof -
  have e: "0 < spec_logo_edge 192" by (simp add: spec_logo_edge_def)
  from create_circular_icon_ok [OF demo_open_icon e demo_dir_xxxhdpi(3) demo_dir_xxxhdpi(4), of True]
  obtain s1 where
    s1: "create_circular_icon ref_lib ''/home/dev/Desktop/RUNSTR LOGO FINAL/expo/icon.png''
           ''android/app/src/main/res/mipmap-xxxhdpi/ic_launcher_round.png'' 192 True demo_world = Inr s1"
    by blast
  from round_icon_transparent_outside_circle [OF s1] s1 show ?thesis by blast
qed



text \<open>
  C3. When the source logo does not exist, \<open>main\<close> of the circular icon generator and
  of the splash logo generator returns at once: it prints the error line and nothing
  else, and no file is written.
\<close>

theorem missing_source_writes_nothing:
  "(\<not> path_exists st (circular_SOURCE_LOGO home) \<longrightarrow>
      (\<exists>st'. circular_main lib home st = Inr st' \<and> files st' = files st \<and>
             printed st st' = [Error_source_not_found (circular_SOURCE_LOGO home)])) \<and>
   (\<not> path_exists st (splash_SOURCE_LOGO home) \<longrightarrow>
      (\<exists>st'. splash_main lib home st = Inr st' \<and> files st' = files st \<and>
             printed st st' = [Error_source_not_found (splash_SOURCE_LOGO home)]))"
  by (simp add: circular_main_def splash_main_def Let_def printed_def)

theorem missing_source_writes_nothing_witness:
  "\<not> path_exists \<lparr>files = Map.empty, console = []\<rparr> (circular_SOURCE_LOGO demo_home) \<and>
   \<not> path_exists \<lparr>files = Map.empty, console = []\<rparr> (splash_SOURCE_LOGO demo_home) \<and>
   (\<exists>st'. circular_main ref_lib demo_home \<lparr>files = Map.empty, console = []\<rparr> = Inr st' \<and>
          files st' = Map.empty \<and>
          printed \<lparr>files = Map.empty, console = []\<rparr> st' = [Error_source_not_found (circular_SOURCE_LOGO demo_home)]) \<and>
   (\<exists>st'. splash_main ref_lib demo_home \<lparr>files = Map.empty, console = []\<rparr> = Inr st' \<and>
          files st' = Map.empty \<and>
          printed \<lparr>files = Map.empty, console = []\<rparr> st' = [Error_source_not_found (splash_SOURCE_LOGO demo_home)])"
proof -
  have a: "\<not> path_exists \<lparr>files = Map.empty, console = []\<rparr> (circular_SOURCE_LOGO demo_home)"
    and b: "\<not> path_exists \<lparr>files = Map.empty, console = []\<rparr> (splash_SOURCE_LOGO demo_home)"
    by (simp_all add: path_exists_def)
  from missing_source_writes_nothing [of "\<lparr>files = Map.empty, console = []\<rparr>" demo_home ref_lib] a b
  show ?thesis by simp
qed

text \<open>
  C7. What \<open>create_circular_icon\<close> saves is the composition the specification
  describes: a transparent canvas of the target size, an opaque black disc spanning
  it, the logo resized to 72% of the edge (\<open>int (size * LOGO_SCALE)\<close> is
  \<open>spec_logo_edge\<close>) and pasted centred through its own alpha. Where the resized logo
  is opaque its pixel replaces the background, where it is fully transparent and
  outside its square the background stays.
\<close>

theorem icon_is_the_specified_composition:
  assumes "create_circular_icon lib source_path output_path sz is_round st = Inr st'"
  shows "\<exists>logo. Image_open lib st source_path = Inr logo \<and>
           nat (py_int (of_nat sz * LOGO_SCALE)) = spec_logo_edge sz \<and>
           files st' output_path
             = Some (File (encode lib (raster sz sz (spec_icon_pixel lib logo sz is_round)))) \<and>
           (\<forall>x < sz. \<forall>y < sz.
              (let n = spec_logo_edge sz; off = (sz - n) div 2; q = lanczos lib logo n n (x - off) (y - off)
               in (off \<le> x \<and> x < off + n \<and> off \<le> y \<and> y < off + n \<and> alpha q = 255
                     \<longrightarrow> spec_icon_pixel lib logo sz False x y = q) \<and>
                  (off \<le> x \<and> x < off + n \<and> off \<le> y \<and> y < off + n \<and> alpha q = 0
                     \<longrightarrow> spec_icon_pixel lib logo sz False x y = spec_background lib sz x y) \<and>
                  (\<not> (off \<le> x \<and> x < off + n \<and> off \<le> y \<and> y < off + n)
                     \<longrightarrow> spec_icon_pixel lib logo sz False x y = spec_background lib sz x y)))"
proof -
  from create_circular_icon_Inr [OF assms] obtain logo where
    o: "Image_open lib st source_path = Inr logo" and
    f: "files st' = (files st)(output_path \<mapsto> File (encode lib (raster sz sz (spec_icon_pixel lib logo sz is_round))))"
    by blast
  have "files st' output_path = Some (File (encode lib (raster sz sz (spec_icon_pixel lib logo sz is_round))))"
    using f by simp
  moreover have "\<forall>x < sz. \<forall>y < sz.
              (let n = spec_logo_edge sz; off = (sz - n) div 2; q = lanczos lib logo n n (x - off) (y - off)
               in (off \<le> x \<and> x < off + n \<and> off \<le> y \<and> y < off + n \<and> alpha q = 255
                     \<longrightarrow> spec_icon_pixel lib logo sz False x y = q) \<and>
                  (off \<le> x \<and> x < off + n \<and> off \<le> y \<and> y < off + n \<and> alpha q = 0
                     \<longrightarrow> spec_icon_pixel lib logo sz False x y = spec_background lib sz x y) \<and>
                  (\<not> (off \<le> x \<and> x < off + n \<and> off \<le> y \<and> y < off + n)
                     \<longrightarrow> spec_icon_pixel lib logo sz False x y = spec_background lib sz x y))"
    by (simp add: spec_icon_pixel_def spec_composite_def Let_def)
  ultimately show ?thesis using o logo_size_eq by blast
qed

theorem icon_is_the_specified_composition_witness:
  "\<exists>st'. create_circular_icon ref_lib ''/home/dev/Desktop/RUNSTR LOGO FINAL/expo/icon.png''
            ''android/app/src/main/res/mipmap-mdpi/ic_launcher.png'' 48 False demo_world = Inr st' \<and>
     (\<exists>logo. Image_open ref_lib demo_world ''/home/dev/Desktop/RUNSTR LOGO FINAL/expo/icon.png'' = Inr logo \<and>
        nat (py_int (of_nat 48 * LOGO_SCALE)) = spec_logo_edge 48 \<and>
        files st' ''android/app/src/main/res/mipmap-mdpi/ic_launcher.png''
          = Some (File (encode ref_lib (raster 48 48 (spec_icon_pixel ref_lib logo 48 False)))))"
proof -
  have e: "0 < spec_logo_edge 48" by (simp add: spec_logo_edge_def)
  from create_circular_icon_ok [OF demo_open_icon e demo_dir_mdpi(1) demo_dir_mdpi(2), of False]
  obtain s1 where
    s1: "create_circular_icon ref_lib ''/home/dev/Desktop/RUNSTR LOGO FINAL/expo/icon.png''
           ''android/app/src/main/res/mipmap-mdpi/ic_launcher.png'' 48 False demo_world = Inr s1"
    by blast
  from icon_is_the_specified_composition [OF s1] s1 show ?thesis by blast
qed

text \<open>
  C9, as the claim states it, does not hold: the square of the resized logo is 72% of
  the canvas, so its corners lie outside the circle (their distance to the centre is
  \<open>0.36 * sqrt 2 > 0.5\<close> of the edge). With an opaque logo and the 192 pixel canvas,
  the pixel \<open>(27, 27)\<close> of the standard icon is outside the circle (its centre is 96.9
  pixels from the centre of the canvas, the radius is 96) and opaque white.
\<close>

theorem standard_icon_opaque_outside_circle:
  "saved_pixel ref_lib
     (create_circular_icon ref_lib ''/home/dev/Desktop/RUNSTR LOGO FINAL/expo/icon.png''
        ''android/app/src/main/res/mipmap-xxxhdpi/ic_launcher.png'' 192 False demo_world)
     ''android/app/src/main/res/mipmap-xxxhdpi/ic_launcher.png'' 27 27 = Some (RGBA 255 255 255 255) \<and>
   \<not> ellipse ref_lib (0, 0, int 192 - 1, int 192 - 1) (int 27, int 27)"
proof -
  have e: "0 < spec_logo_edge 192" by (simp add: spec_logo_edge_def)
  have d: "decode ref_lib (encode ref_lib (raster 192 192 (spec_icon_pixel ref_lib white_logo 192 False)))
           = Some (raster 192 192 (spec_icon_pixel ref_lib white_logo 192 False))"
    by (simp add: ref_lib_def ref_decode_encode)
  have out: "\<not> ellipse ref_lib (0, 0, int 192 - 1, int 192 - 1) (int 27, int 27)"
    by (simp add: ref_lib_def ideal_ellipse_def)
  have px: "spec_icon_pixel ref_lib white_logo 192 False 27 27 = RGBA 255 255 255 255"
    by (simp add: spec_icon_pixel_def spec_composite_def spec_logo_edge_def Let_def ref_lib_def
        nearest_def white_logo_def getpixel_def)
  from saved_pixel_create [OF demo_open_icon e demo_dir_xxxhdpi(1) demo_dir_xxxhdpi(2) d, of 27 27] px out
  show ?thesis by simp
qed

text \<open>
  C9, amended. For every target size and every source logo, the standard icon is
  left as the first step made it, fully transparent, at every pixel outside the drawn
  circle that is outside the square where the resized logo is pasted, or where the
  resized logo is fully transparent.
\<close>

theorem standard_icon_transparent_outside_circle_and_logo:
  assumes "create_circular_icon lib source_path output_path sz False st = Inr st'"
  shows "\<exists>logo img. Image_open lib st source_path = Inr logo \<and>
           files st' output_path = Some (File (encode lib img)) \<and> square img sz \<and>
           (\<forall>x < sz. \<forall>y < sz. \<not> ellipse lib (0, 0, int sz - 1, int sz - 1) (int x, int y) \<longrightarrow>
              (let n = sz * 72 div 100; off = (sz - n) div 2
               in if off \<le> x \<and> x < off + n \<and> off \<le> y \<and> y < off + n
                  then alpha (lanczos lib logo n n (x - off) (y - off)) = 0 \<longrightarrow> getpixel img x y = RGBA 0 0 0 0
                  else getpixel img x y = RGBA 0 0 0 0))"
proof -
  from create_circular_icon_Inr [OF assms] obtain logo where
    o: "Image_open lib st source_path = Inr logo" and
    f: "files st' = (files st)(output_path \<mapsto> File (encode lib (raster sz sz (spec_icon_pixel lib logo sz False))))"
    by blast
  let ?img = "raster sz sz (spec_icon_pixel lib logo sz False)"
  have "files st' output_path = Some (File (encode lib ?img))" using f by simp
  moreover have "square ?img sz" by simp
  moreover have "\<forall>x < sz. \<forall>y < sz. \<not> ellipse lib (0, 0, int sz - 1, int sz - 1) (int x, int y) \<longrightarrow>
              (let n = sz * 72 div 100; off = (sz - n) div 2
               in if off \<le> x \<and> x < off + n \<and> off \<le> y \<and> y < off + n
                  then alpha (lanczos lib logo n n (x - off) (y - off)) = 0 \<longrightarrow> getpixel ?img x y = RGBA 0 0 0 0
                  else getpixel ?img x y = RGBA 0 0 0 0)"
    by (simp add: spec_icon_pixel_def spec_composite_outside_circle spec_logo_edge_def Let_def)
  ultimately show ?thesis using o by blast
qed

theorem standard_icon_transparent_outside_circle_and_logo_witness:
  "\<exists>st'. create_circular_icon ref_lib ''/home/dev/Desktop/RUNSTR LOGO FINAL/expo/icon.png''
            ''android/app/src/main/res/mipmap-xxxhdpi/ic_launcher.png'' 192 False demo_world = Inr st' \<and>
     (\<exists>logo img. Image_open ref_lib demo_world ''/home/dev/Desktop/RUNSTR LOGO FINAL/expo/icon.png'' = Inr logo \<and>
        files st' ''android/app/src/main/res/mipmap-xxxhdpi/ic_launcher.png'' = Some (File (encode ref_lib img)) \<and>
        square img 192 \<and>
        (\<forall>x < 192. \<forall>y < 192. \<not> ellipse ref_lib (0, 0, int 192 - 1, int 192 - 1) (int x, int y) \<longrightarrow>
              (let n = 192 * 72 div 100; off = (192 - n) div 2
               in if off \<le> x \<and> x < off + n \<and> off \<le> y \<and> y < off + n
                  then alpha (lanczos ref_lib logo n n (x - off) (y - off)) = 0 \<longrightarrow> getpixel img x y = RGBA 0 0 0 0
                  else getpixel img x y = RGBA 0 0 0 0)))"
proof -
  have e: "0 < spec_logo_edge 192" by (simp add: spec_logo_edge_def)
  from create_circular_icon_ok [OF demo_open_icon e demo_dir_xxxhdpi(1) demo_dir_xxxhdpi(2), of False]
  obtain s1 where
    s1: "create_circular_icon ref_lib ''/home/dev/Desktop/RUNSTR LOGO FINAL/expo/icon.png''
           ''android/app/src/main/res/mipmap-xxxhdpi/ic_launcher.png'' 192 False demo_world = Inr s1"
    by blast
  from standard_icon_transparent_outside_circle_and_logo [OF s1] s1 show ?thesis by blast
qed

text \<open>
  C8. \<open>scale_icon\<close> resizes the icon to twice the canvas size
  (\<open>int (canvas_size * SCALE_FACTOR)\<close> is \<open>2 * canvas_size\<close>), pastes it through its own
  alpha on a transparent canvas of the original size at a centring offset that is
  negative, so that the canvas shows the middle of the enlarged icon
  (\<open>spec_upscaled_pixel\<close>), and saves the result at the output path, changing no other
  file. \<open>main\<close> gives the same path as input and output: after a run, every icon file
  that existed holds the upscaled image of what it held.
\<close>

theorem upscaler_is_the_specified_composition_in_place:
  "(scale_icon lib input_path output_path canvas_size st = Inr st' \<longrightarrow>
      (\<exists>img. Image_open lib st input_path = Inr img \<and>
         nat (py_int (of_nat canvas_size * SCALE_FACTOR)) = 2 * canvas_size \<and>
         (int canvas_size - int (2 * canvas_size)) div 2 < 0 \<and>
         files st' = (files st)(output_path \<mapsto>
           File (encode lib (raster canvas_size canvas_size (spec_upscaled_pixel lib img canvas_size)))))) \<and>
   (scale_main lib st = Inr st' \<longrightarrow>
      (\<forall>(density, sz) \<in> set DENSITIES. \<forall>icon_name \<in> {''ic_launcher.png'', ''ic_launcher_round.png''}.
         let icon_file = path_join (path_join ''android/app/src/main/res'' (''mipmap-'' @ density)) icon_name
         in path_exists st icon_file \<longrightarrow>
            (\<exists>img. Image_open lib st icon_file = Inr img \<and>
               files st' icon_file = Some (File (encode lib (raster sz sz (spec_upscaled_pixel lib img sz)))))))"
proof (intro conjI impI)
  assume r: "scale_icon lib input_path output_path canvas_size st = Inr st'"
  from scale_icon_Inr [OF r] obtain img where
    o: "Image_open lib st input_path = Inr img" and n: "0 < canvas_size"
    and f: "files st' = (files st)(output_path \<mapsto>
           File (encode lib (raster canvas_size canvas_size (spec_upscaled_pixel lib img canvas_size))))"
    by blast
  have "(int canvas_size - int (2 * canvas_size)) div 2 < 0" using n by simp
  with o f new_size_eq show "\<exists>img. Image_open lib st input_path = Inr img \<and>
         nat (py_int (of_nat canvas_size * SCALE_FACTOR)) = 2 * canvas_size \<and>
         (int canvas_size - int (2 * canvas_size)) div 2 < 0 \<and>
         files st' = (files st)(output_path \<mapsto>
           File (encode lib (raster canvas_size canvas_size (spec_upscaled_pixel lib img canvas_size))))"
    by blast
next
  assume r: "scale_main lib st = Inr st'"
  show "\<forall>(density, sz) \<in> set DENSITIES. \<forall>icon_name \<in> {''ic_launcher.png'', ''ic_launcher_round.png''}.
         let icon_file = path_join (path_join ''android/app/src/main/res'' (''mipmap-'' @ density)) icon_name
         in path_exists st icon_file \<longrightarrow>
            (\<exists>img. Image_open lib st icon_file = Inr img \<and>
               files st' icon_file = Some (File (encode lib (raster sz sz (spec_upscaled_pixel lib img sz)))))"
  proof (intro ballI, clarify)
    fix density sz icon_name
    assume m: "(density, sz) \<in> set DENSITIES"
      and nm: "icon_name \<in> {''ic_launcher.png'', ''ic_launcher_round.png''}"
    define r where "r = (icon_name = ''ic_launcher_round.png'')"
    have p: "path_join (path_join ''android/app/src/main/res'' (''mipmap-'' @ density)) icon_name = icon_path density r"
      using nm by (auto simp add: r_def icon_path_def mipmap_dir_def BASE_PATH_def)
    show "let icon_file = path_join (path_join ''android/app/src/main/res'' (''mipmap-'' @ density)) icon_name
         in path_exists st icon_file \<longrightarrow>
            (\<exists>img. Image_open lib st icon_file = Inr img \<and>
               files st' icon_file = Some (File (encode lib (raster sz sz (spec_upscaled_pixel lib img sz)))))"
      unfolding Let_def p using scale_main_item [OF r m, of r] by blast
  qed
qed

theorem upscaler_is_the_specified_composition_in_place_witness:
  "(\<exists>st'. scale_icon ref_lib ''android/app/src/main/res/mipmap-mdpi/ic_launcher.png''
            ''android/app/src/main/res/mipmap-mdpi/ic_launcher.png'' 48 demo_world = Inr st' \<and>
      (\<exists>img. Image_open ref_lib demo_world ''android/app/src/main/res/mipmap-mdpi/ic_launcher.png'' = Inr img \<and>
         nat (py_int (of_nat 48 * SCALE_FACTOR)) = 2 * 48 \<and>
         (int 48 - int (2 * 48)) div 2 < 0 \<and>
         files st' = (files demo_world)(''android/app/src/main/res/mipmap-mdpi/ic_launcher.png'' \<mapsto>
           File (encode ref_lib (raster 48 48 (spec_upscaled_pixel ref_lib img 48)))))) \<and>
   (\<exists>st'. scale_main ref_lib demo_world = Inr st' \<and>
      (\<forall>(density, sz) \<in> set DENSITIES. \<forall>icon_name \<in> {''ic_launcher.png'', ''ic_launcher_round.png''}.
         let icon_file = path_join (path_join ''android/app/src/main/res'' (''mipmap-'' @ density)) icon_name
         in path_exists demo_world icon_file \<longrightarrow>
            (\<exists>img. Image_open ref_lib demo_world icon_file = Inr img \<and>
               files st' icon_file = Some (File (encode ref_lib (raster sz sz (spec_upscaled_pixel ref_lib img sz))))))) \<and>
   path_exists demo_world
     (path_join (path_join ''android/app/src/main/res'' (''mipmap-'' @ ''mdpi'')) ''ic_launcher.png'')"
proof -
  from scale_icon_ok [OF demo_open_launcher _ demo_dir_mdpi(1) demo_dir_mdpi(2), of 48] obtain s1 where
    s1: "scale_icon ref_lib ''android/app/src/main/res/mipmap-mdpi/ic_launcher.png''
           ''android/app/src/main/res/mipmap-mdpi/ic_launcher.png'' 48 demo_world = Inr s1" by auto
  from scale_main_returns [OF demo_scale_ready] obtain s2 where
    s2: "scale_main ref_lib demo_world = Inr s2" by blast
  have e: "path_exists demo_world
     (path_join (path_join ''android/app/src/main/res'' (''mipmap-'' @ ''mdpi'')) ''ic_launcher.png'')"
    by (simp add: path_exists_def demo_world_def path_join_def)
  from upscaler_is_the_specified_composition_in_place [of ref_lib _ _ 48 demo_world s1] s1
  have c1: "\<exists>img. Image_open ref_lib demo_world ''android/app/src/main/res/mipmap-mdpi/ic_launcher.png'' = Inr img \<and>
         nat (py_int (of_nat 48 * SCALE_FACTOR)) = 2 * 48 \<and>
         (int 48 - int (2 * 48)) div 2 < 0 \<and>
         files s1 = (files demo_world)(''android/app/src/main/res/mipmap-mdpi/ic_launcher.png'' \<mapsto>
           File (encode ref_lib (raster 48 48 (spec_upscaled_pixel ref_lib img 48))))"
    by blast
  from upscaler_is_the_specified_composition_in_place [of ref_lib _ _ _ demo_world s2] s2
  have c2: "\<forall>(density, sz) \<in> set DENSITIES. \<forall>icon_name \<in> {''ic_launcher.png'', ''ic_launcher_round.png''}.
         let icon_file = path_join (path_join ''android/app/src/main/res'' (''mipmap-'' @ density)) icon_name
         in path_exists demo_world icon_file \<longrightarrow>
            (\<exists>img. Image_open ref_lib demo_world icon_file = Inr img \<and>
               files s2 icon_file = Some (File (encode ref_lib (raster sz sz (spec_upscaled_pixel ref_lib img sz)))))"
    by blast
  from s1 c1 s2 c2 e show ?thesis by blast
qed

text \<open>
  C10. For every density whose light-mode and dark-mode directories both exist, a run
  of the splash logo generator leaves the same bytes in the two
  \<^verbatim>\<open>splashscreen_logo.png\<close> files: the encoding of the one resize of the source to the
  density's size.
\<close>

theorem splash_light_and_dark_identical:
  assumes "splash_main lib home st = Inr st'" and "path_exists st (splash_SOURCE_LOGO home)"
    and "(density, sz) \<in> set SPLASH_SIZES"
    and "path_exists st (path_join BASE_PATH (''drawable-'' @ density))"
    and "path_exists st (path_join BASE_PATH (''drawable-night-'' @ density))"
  shows "\<exists>img resized.
           Image_open lib st (splash_SOURCE_LOGO home) = Inr img \<and> resize lib img sz sz = Inr resized \<and>
           files st' (path_join (path_join BASE_PATH (''drawable-'' @ density)) ''splashscreen_logo.png'')
             = Some (File (encode lib resized)) \<and>
           files st' (path_join (path_join BASE_PATH (''drawable-night-'' @ density)) ''splashscreen_logo.png'')
             = Some (File (encode lib resized))"
proof -
  have l: "path_exists st (drawable_dir density False)" and d: "path_exists st (drawable_dir density True)"
    using assms(4,5) by (simp_all add: drawable_dir_def)
  from splash_main_item [OF assms(1,2,3) l] obtain img where
    o: "Image_open lib st (splash_SOURCE_LOGO home) = Inr img"
    and f1: "files st' (splash_path density False) = Some (File (encode lib (raster sz sz (lanczos lib img sz sz))))"
    by blast
  from splash_main_item [OF assms(1,2,3) d] o have
    f2: "files st' (splash_path density True) = Some (File (encode lib (raster sz sz (lanczos lib img sz sz))))"
    by auto
  have r: "resize lib img sz sz = Inr (raster sz sz (lanczos lib img sz sz))"
    using SPLASH_SIZES_plain(2) [OF assms(3)] by (simp add: resize_def)
  from o r f1 f2 show ?thesis by (simp add: splash_path_def drawable_dir_def)
qed

theorem splash_light_and_dark_identical_witness:
  "\<exists>st'. splash_main ref_lib demo_home demo_world = Inr st' \<and>
     path_exists demo_world (splash_SOURCE_LOGO demo_home) \<and>
     (''mdpi'', 300) \<in> set SPLASH_SIZES \<and>
     path_exists demo_world (path_join BASE_PATH (''drawable-'' @ ''mdpi'')) \<and>
     path_exists demo_world (path_join BASE_PATH (''drawable-night-'' @ ''mdpi'')) \<and>
     (\<exists>img resized.
        Image_open ref_lib demo_world (splash_SOURCE_LOGO demo_home) = Inr img \<and>
        resize ref_lib img 300 300 = Inr resized \<and>
        files st' (path_join (path_join BASE_PATH (''drawable-'' @ ''mdpi'')) ''splashscreen_logo.png'')
          = Some (File (encode ref_lib resized)) \<and>
        files st' (path_join (path_join BASE_PATH (''drawable-night-'' @ ''mdpi'')) ''splashscreen_logo.png'')
          = Some (File (encode ref_lib resized)))"
proof -
  from splash_main_returns [OF demo_sources_exist(2) demo_splash_ready] obtain st' where
    r: "splash_main ref_lib demo_home demo_world = Inr st'" by blast
  have m: "(''mdpi'', 300) \<in> set SPLASH_SIZES" by (simp add: SPLASH_SIZES_def)
  have l: "path_exists demo_world (path_join BASE_PATH (''drawable-'' @ ''mdpi''))"
    and d: "path_exists demo_world (path_join BASE_PATH (''drawable-night-'' @ ''mdpi''))"
    by (simp_all add: path_exists_def demo_world_def path_join_def BASE_PATH_def)
  from splash_light_and_dark_identical [OF r demo_sources_exist(2) m l d] r demo_sources_exist(2) m l d
  show ?thesis by blast
qed

text \<open>
  C5. The two generators are idempotent. Run a second time on the world the first run
  left, a generator returns and leaves every file as it was. And what a run writes
  for an item depends on the bytes of the source and on the table only: two runs, in
  two worlds that hold the same source, write the same bytes at every output whose
  directory exists in both.
\<close>

theorem generators_are_idempotent:
  "(circular_main lib home st = Inr st1 \<longrightarrow>
      (\<exists>st2. circular_main lib home st1 = Inr st2 \<and> files st2 = files st1)) \<and>
   (splash_main lib home st = Inr st1 \<longrightarrow>
      (\<exists>st2. splash_main lib home st1 = Inr st2 \<and> files st2 = files st1)) \<and>
   (circular_main lib home sta = Inr sta' \<and> circular_main lib home stb = Inr stb' \<and>
    path_exists sta (circular_SOURCE_LOGO home) \<and>
    files sta (circular_SOURCE_LOGO home) = files stb (circular_SOURCE_LOGO home) \<longrightarrow>
      (\<forall>(density, sz) \<in> set ICON_SIZES. \<forall>is_round.
         path_exists sta (mipmap_dir density) \<and> path_exists stb (mipmap_dir density) \<longrightarrow>
         files sta' (icon_path density is_round) = files stb' (icon_path density is_round))) \<and>
   (splash_main lib home sta = Inr sta' \<and> splash_main lib home stb = Inr stb' \<and>
    path_exists sta (splash_SOURCE_LOGO home) \<and>
    files sta (splash_SOURCE_LOGO home) = files stb (splash_SOURCE_LOGO home) \<longrightarrow>
      (\<forall>(density, sz) \<in> set SPLASH_SIZES. \<forall>dark.
         path_exists sta (drawable_dir density dark) \<and> path_exists stb (drawable_dir density dark) \<longrightarrow>
         files sta' (splash_path density dark) = files stb' (splash_path density dark)))"
proof (intro conjI impI)
  assume "circular_main lib home st = Inr st1"
  then show "\<exists>st2. circular_main lib home st1 = Inr st2 \<and> files st2 = files st1" by (rule circular_rerun)
next
  assume "splash_main lib home st = Inr st1"
  then show "\<exists>st2. splash_main lib home st1 = Inr st2 \<and> files st2 = files st1" by (rule splash_rerun)
next
  let ?src = "circular_SOURCE_LOGO home"
  assume a: "circular_main lib home sta = Inr sta' \<and> circular_main lib home stb = Inr stb' \<and>
    path_exists sta ?src \<and> files sta ?src = files stb ?src"
  then have ra: "circular_main lib home sta = Inr sta'" and rb: "circular_main lib home stb = Inr stb'"
    and ea: "path_exists sta ?src" and eq: "files sta ?src = files stb ?src" by simp_all
  have eb: "path_exists stb ?src" using ea eq by (simp add: path_exists_def)
  show "\<forall>(density, sz) \<in> set ICON_SIZES. \<forall>is_round.
         path_exists sta (mipmap_dir density) \<and> path_exists stb (mipmap_dir density) \<longrightarrow>
         files sta' (icon_path density is_round) = files stb' (icon_path density is_round)"
  proof (intro ballI, clarify)
    fix d sz r assume m: "(d, sz) \<in> set ICON_SIZES"
      and da: "path_exists sta (mipmap_dir d)" and db: "path_exists stb (mipmap_dir d)"
    from circular_main_item [OF ra ea m da, of r] obtain la where
      oa: "Image_open lib sta ?src = Inr la"
      and fa: "files sta' (icon_path d r) = Some (File (encode lib (raster sz sz (spec_icon_pixel lib la sz r))))"
      by blast
    from circular_main_item [OF rb eb m db, of r] obtain lb where
      ob: "Image_open lib stb ?src = Inr lb"
      and fb: "files stb' (icon_path d r) = Some (File (encode lib (raster sz sz (spec_icon_pixel lib lb sz r))))"
      by blast
    have "la = lb" using oa ob Image_open_cong [OF eq, of lib] by simp
    then show "files sta' (icon_path d r) = files stb' (icon_path d r)" using fa fb by simp
  qed
next
  let ?src = "splash_SOURCE_LOGO home"
  assume a: "splash_main lib home sta = Inr sta' \<and> splash_main lib home stb = Inr stb' \<and>
    path_exists sta ?src \<and> files sta ?src = files stb ?src"
  then have ra: "splash_main lib home sta = Inr sta'" and rb: "splash_main lib home stb = Inr stb'"
    and ea: "path_exists sta ?src" and eq: "files sta ?src = files stb ?src" by simp_all
  have eb: "path_exists stb ?src" using ea eq by (simp add: path_exists_def)
  show "\<forall>(density, sz) \<in> set SPLASH_SIZES. \<forall>dark.
         path_exists sta (drawable_dir density dark) \<and> path_exists stb (drawable_dir density dark) \<longrightarrow>
         files sta' (splash_path density dark) = files stb' (splash_path density dark)"
  proof (intro ballI, clarify)
    fix d sz dark assume m: "(d, sz) \<in> set SPLASH_SIZES"
      and da: "path_exists sta (drawable_dir d dark)" and db: "path_exists stb (drawable_dir d dark)"
    from splash_main_item [OF ra ea m da] obtain la where
      oa: "Image_open lib sta ?src = Inr la"
      and fa: "files sta' (splash_path d dark) = Some (File (encode lib (raster sz sz (lanczos lib la sz sz))))"
      by blast
    from splash_main_item [OF rb eb m db] obtain lb where
      ob: "Image_open lib stb ?src = Inr lb"
      and fb: "files stb' (splash_path d dark) = Some (File (encode lib (raster sz sz (lanczos lib lb sz sz))))"
      by blast
    have "la = lb" using oa ob Image_open_cong [OF eq, of lib] by simp
    then show "files sta' (splash_path d dark) = files stb' (splash_path d dark)" using fa fb by simp
  qed
qed

theorem generators_are_idempotent_witness:
  "(\<exists>st1. circular_main ref_lib demo_home demo_world = Inr st1 \<and>
      (\<exists>st2. circular_main ref_lib demo_home st1 = Inr st2 \<and> files st2 = files st1)) \<and>
   (\<exists>st1. splash_main ref_lib demo_home demo_world = Inr st1 \<and>
      (\<exists>st2. splash_main ref_lib demo_home st1 = Inr st2 \<and> files st2 = files st1)) \<and>
   (\<exists>sta' stb'.
      circular_main ref_lib demo_home demo_world = Inr sta' \<and>
      circular_main ref_lib demo_home (print demo_world (Info ''second'')) = Inr stb' \<and>
      path_exists demo_world (circular_SOURCE_LOGO demo_home) \<and>
      files demo_world (circular_SOURCE_LOGO demo_home)
        = files (print demo_world (Info ''second'')) (circular_SOURCE_LOGO demo_home) \<and>
      (\<forall>(density, sz) \<in> set ICON_SIZES. \<forall>is_round.
         path_exists demo_world (mipmap_dir density) \<and>
         path_exists (print demo_world (Info ''second'')) (mipmap_dir density) \<longrightarrow>
         files sta' (icon_path density is_round) = files stb' (icon_path density is_round)) \<and>
      path_exists demo_world (mipmap_dir ''mdpi'')) \<and>
   (\<exists>sta' stb'.
      splash_main ref_lib demo_home demo_world = Inr sta' \<and>
      splash_main ref_lib demo_home (print demo_world (Info ''second'')) = Inr stb' \<and>
      path_exists demo_world (splash_SOURCE_LOGO demo_home) \<and>
      files demo_world (splash_SOURCE_LOGO demo_home)
        = files (print demo_world (Info ''second'')) (splash_SOURCE_LOGO demo_home) \<and>
      (\<forall>(density, sz) \<in> set SPLASH_SIZES. \<forall>dark.
         path_exists demo_world (drawable_dir density dark) \<and>
         path_exists (print demo_world (Info ''second'')) (drawable_dir density dark) \<longrightarrow>
         files sta' (splash_path density dark) = files stb' (splash_path density dark)) \<and>
      path_exists demo_world (drawable_dir ''mdpi'' True))"
proof -
  let ?w2 = "print demo_world (Info ''second'')"
  from circular_main_returns [OF demo_sources_exist(1) demo_circular_ready] obtain c1 where
    c1: "circular_main ref_lib demo_home demo_world = Inr c1" by blast
  from splash_main_returns [OF demo_sources_exist(2) demo_splash_ready] obtain s1 where
    s1: "splash_main ref_lib demo_home demo_world = Inr s1" by blast
  have "path_exists ?w2 (circular_SOURCE_LOGO demo_home)" using demo_sources_exist(1) by simp
  from circular_main_returns [OF this] demo_circular_ready obtain c2 where
    c2: "circular_main ref_lib demo_home ?w2 = Inr c2" by auto
  have "path_exists ?w2 (splash_SOURCE_LOGO demo_home)" using demo_sources_exist(2) by simp
  from splash_main_returns [OF this] demo_splash_ready obtain s2 where
    s2: "splash_main ref_lib demo_home ?w2 = Inr s2" by auto
  have e1: "path_exists demo_world (mipmap_dir ''mdpi'')"
    by (simp add: path_exists_def demo_world_def mipmap_dir_eq)
  have e2: "path_exists demo_world (drawable_dir ''mdpi'' True)"
    by (simp add: path_exists_def demo_world_def drawable_dir_eq)
  have f1: "files demo_world (circular_SOURCE_LOGO demo_home) = files ?w2 (circular_SOURCE_LOGO demo_home)"
    and f2: "files demo_world (splash_SOURCE_LOGO demo_home) = files ?w2 (splash_SOURCE_LOGO demo_home)"
    by simp_all
  note g = generators_are_idempotent [of ref_lib demo_home]
  from g [of demo_world c1] c1 have a: "\<exists>st2. circular_main ref_lib demo_home c1 = Inr st2 \<and> files st2 = files c1"
    by blast
  from g [of _ _ demo_world s1] s1 have b: "\<exists>st2. splash_main ref_lib demo_home s1 = Inr st2 \<and> files st2 = files s1"
    by blast
  from g [of _ _ demo_world c1 ?w2 c2] c1 c2 demo_sources_exist(1) f1
  have c: "\<forall>(density, sz) \<in> set ICON_SIZES. \<forall>is_round.
         path_exists demo_world (mipmap_dir density) \<and> path_exists ?w2 (mipmap_dir density) \<longrightarrow>
         files c1 (icon_path density is_round) = files c2 (icon_path density is_round)"
    by blast
  from g [of _ _ demo_world s1 ?w2 s2] s1 s2 demo_sources_exist(2) f2
  have d: "\<forall>(density, sz) \<in> set SPLASH_SIZES. \<forall>dark.
         path_exists demo_world (drawable_dir density dark) \<and> path_exists ?w2 (drawable_dir density dark) \<longrightarrow>
         files s1 (splash_path density dark) = files s2 (splash_path density dark)"
    by blast
  from c1 a s1 b c2 c s2 d e1 e2 demo_sources_exist f1 f2 show ?thesis by blast
qed

text \<open>
  C4. In a world where the library meets no failure (\<open>circular_ready\<close>,
  \<open>splash_ready\<close>, \<open>scale_ready\<close>), the run of each script returns, and for every item
  of its table: when the item's directory (generators) or file (upscaler) does not
  exist, the warning for it is printed exactly once and its output is left as it was;
  when it exists, no warning is printed for it and its output is the file that the
  script's function writes when it is called on the initial world. So a missing
  directory skips its own item and no other. The circular icon generator prints its
  one warning for a density whose directory is missing and skips both icons of that
  density.
\<close>

theorem missing_item_is_skipped_and_the_run_goes_on:
  "(path_exists st (circular_SOURCE_LOGO home) \<and> circular_ready lib (circular_SOURCE_LOGO home) st \<longrightarrow>
      (\<exists>st'. circular_main lib home st = Inr st' \<and>
         (\<forall>(density, sz) \<in> set ICON_SIZES.
            count_list (printed st st') (Warning_not_found (mipmap_dir density))
              = (if path_exists st (mipmap_dir density) then 0 else 1) \<and>
            (\<forall>is_round.
               if path_exists st (mipmap_dir density)
               then \<exists>st1. create_circular_icon lib (circular_SOURCE_LOGO home)
                             (icon_path density is_round) sz is_round st = Inr st1 \<and>
                           files st' (icon_path density is_round) = files st1 (icon_path density is_round)
               else files st' (icon_path density is_round) = files st (icon_path density is_round))))) \<and>
   (path_exists st (splash_SOURCE_LOGO home) \<and> splash_ready lib (splash_SOURCE_LOGO home) st \<longrightarrow>
      (\<exists>st'. splash_main lib home st = Inr st' \<and>
         (\<forall>(density, sz) \<in> set SPLASH_SIZES. \<forall>dark.
            count_list (printed st st') (Warning_not_found (drawable_dir density dark))
              = (if path_exists st (drawable_dir density dark) then 0 else 1) \<and>
            (if path_exists st (drawable_dir density dark)
             then \<exists>st1. generate_splash_logo lib (splash_SOURCE_LOGO home)
                           (splash_path density dark) sz st = Inr st1 \<and>
                         files st' (splash_path density dark) = files st1 (splash_path density dark)
             else files st' (splash_path density dark) = files st (splash_path density dark))))) \<and>
   (scale_ready lib st \<longrightarrow>
      (\<exists>st'. scale_main lib st = Inr st' \<and>
         (\<forall>(density, sz) \<in> set DENSITIES. \<forall>is_round.
            count_list (printed st st') (Warning_not_found (icon_path density is_round))
              = (if path_exists st (icon_path density is_round) then 0 else 1) \<and>
            (if path_exists st (icon_path density is_round)
             then \<exists>st1. scale_icon lib (icon_path density is_round) (icon_path density is_round) sz st = Inr st1 \<and>
                         files st' (icon_path density is_round) = files st1 (icon_path density is_round)
             else files st' (icon_path density is_round) = files st (icon_path density is_round)))))"
proof (intro conjI impI)
  assume "path_exists st (circular_SOURCE_LOGO home) \<and> circular_ready lib (circular_SOURCE_LOGO home) st"
  then have src: "path_exists st (circular_SOURCE_LOGO home)"
    and rdy: "circular_ready lib (circular_SOURCE_LOGO home) st" by simp_all
  from circular_main_returns [OF src rdy] obtain st' where run: "circular_main lib home st = Inr st'"
    by blast
  have "\<forall>(density, sz) \<in> set ICON_SIZES.
            count_list (printed st st') (Warning_not_found (mipmap_dir density))
              = (if path_exists st (mipmap_dir density) then 0 else 1) \<and>
            (\<forall>is_round.
               if path_exists st (mipmap_dir density)
               then \<exists>st1. create_circular_icon lib (circular_SOURCE_LOGO home)
                             (icon_path density is_round) sz is_round st = Inr st1 \<and>
                           files st' (icon_path density is_round) = files st1 (icon_path density is_round)
               else files st' (icon_path density is_round) = files st (icon_path density is_round))"
  proof (intro ballI, clarify, intro conjI allI)
    fix d sz assume m: "(d, sz) \<in> set ICON_SIZES"
    show "count_list (printed st st') (Warning_not_found (mipmap_dir d))
            = (if path_exists st (mipmap_dir d) then 0 else 1)"
      by (rule circular_main_skips(1) [OF run src m])
    fix r
    show "if path_exists st (mipmap_dir d)
          then \<exists>st1. create_circular_icon lib (circular_SOURCE_LOGO home) (icon_path d r) sz r st = Inr st1 \<and>
                      files st' (icon_path d r) = files st1 (icon_path d r)
          else files st' (icon_path d r) = files st (icon_path d r)"
      using circular_main_skips(2) [OF run src m, of r] circular_main_skips(3) [OF run src m, of r]
      by (cases "path_exists st (mipmap_dir d)") simp_all
  qed
  with run show "\<exists>st'. circular_main lib home st = Inr st' \<and>
         (\<forall>(density, sz) \<in> set ICON_SIZES.
            count_list (printed st st') (Warning_not_found (mipmap_dir density))
              = (if path_exists st (mipmap_dir density) then 0 else 1) \<and>
            (\<forall>is_round.
               if path_exists st (mipmap_dir density)
               then \<exists>st1. create_circular_icon lib (circular_SOURCE_LOGO home)
                             (icon_path density is_round) sz is_round st = Inr st1 \<and>
                           files st' (icon_path density is_round) = files st1 (icon_path density is_round)
               else files st' (icon_path density is_round) = files st (icon_path density is_round)))"
    by (intro exI [of _ st'] conjI)
next
  assume "path_exists st (splash_SOURCE_LOGO home) \<and> splash_ready lib (splash_SOURCE_LOGO home) st"
  then have src: "path_exists st (splash_SOURCE_LOGO home)"
    and rdy: "splash_ready lib (splash_SOURCE_LOGO home) st" by simp_all
  from splash_main_returns [OF src rdy] obtain st' where run: "splash_main lib home st = Inr st'"
    by blast
  have "\<forall>(density, sz) \<in> set SPLASH_SIZES. \<forall>dark.
            count_list (printed st st') (Warning_not_found (drawable_dir density dark))
              = (if path_exists st (drawable_dir density dark) then 0 else 1) \<and>
            (if path_exists st (drawable_dir density dark)
             then \<exists>st1. generate_splash_logo lib (splash_SOURCE_LOGO home)
                           (splash_path density dark) sz st = Inr st1 \<and>
                         files st' (splash_path density dark) = files st1 (splash_path density dark)
             else files st' (splash_path density dark) = files st (splash_path density dark))"
  proof (intro ballI, clarify, intro conjI)
    fix d sz dark assume m: "(d, sz) \<in> set SPLASH_SIZES"
    show "count_list (printed st st') (Warning_not_found (drawable_dir d dark))
            = (if path_exists st (drawable_dir d dark) then 0 else 1)"
      by (rule splash_main_skips(1) [OF run src m])
    show "if path_exists st (drawable_dir d dark)
          then \<exists>st1. generate_splash_logo lib (splash_SOURCE_LOGO home) (splash_path d dark) sz st = Inr st1 \<and>
                      files st' (splash_path d dark) = files st1 (splash_path d dark)
          else files st' (splash_path d dark) = files st (splash_path d dark)"
      using splash_main_skips(2) [OF run src m, of dark] splash_main_skips(3) [OF run src m, of dark]
      by (cases "path_exists st (drawable_dir d dark)") simp_all
  qed
  with run show "\<exists>st'. splash_main lib home st = Inr st' \<and>
         (\<forall>(density, sz) \<in> set SPLASH_SIZES. \<forall>dark.
            count_list (printed st st') (Warning_not_found (drawable_dir density dark))
              = (if path_exists st (drawable_dir density dark) then 0 else 1) \<and>
            (if path_exists st (drawable_dir density dark)
             then \<exists>st1. generate_splash_logo lib (splash_SOURCE_LOGO home)
                           (splash_path density dark) sz st = Inr st1 \<and>
                         files st' (splash_path density dark) = files st1 (splash_path density dark)
             else files st' (splash_path density dark) = files st (splash_path density dark)))"
    by (intro exI [of _ st'] conjI)
next
  assume rdy: "scale_ready lib st"
  from scale_main_returns [OF rdy] obtain st' where run: "scale_main lib st = Inr st'" by blast
  have "\<forall>(density, sz) \<in> set DENSITIES. \<forall>is_round.
            count_list (printed st st') (Warning_not_found (icon_path density is_round))
              = (if path_exists st (icon_path density is_round) then 0 else 1) \<and>
            (if path_exists st (icon_path density is_round)
             then \<exists>st1. scale_icon lib (icon_path density is_round) (icon_path density is_round) sz st = Inr st1 \<and>
                         files st' (icon_path density is_round) = files st1 (icon_path density is_round)
             else files st' (icon_path density is_round) = files st (icon_path density is_round))"
  proof (intro ballI, clarify, intro conjI)
    fix d sz r assume m: "(d, sz) \<in> set DENSITIES"
    show "count_list (printed st st') (Warning_not_found (icon_path d r))
            = (if path_exists st (icon_path d r) then 0 else 1)"
      by (rule scale_main_skips(1) [OF run m])
    show "if path_exists st (icon_path d r)
          then \<exists>st1. scale_icon lib (icon_path d r) (icon_path d r) sz st = Inr st1 \<and>
                      files st' (icon_path d r) = files st1 (icon_path d r)
          else files st' (icon_path d r) = files st (icon_path d r)"
      using scale_main_skips(2) [OF run m, of r] scale_main_skips(3) [OF run m, of r]
      by (cases "path_exists st (icon_path d r)") simp_all
  qed
  with run show "\<exists>st'. scale_main lib st = Inr st' \<and>
         (\<forall>(density, sz) \<in> set DENSITIES. \<forall>is_round.
            count_list (printed st st') (Warning_not_found (icon_path density is_round))
              = (if path_exists st (icon_path density is_round) then 0 else 1) \<and>
            (if path_exists st (icon_path density is_round)
             then \<exists>st1. scale_icon lib (icon_path density is_round) (icon_path density is_round) sz st = Inr st1 \<and>
                         files st' (icon_path density is_round) = files st1 (icon_path density is_round)
             else files st' (icon_path density is_round) = files st (icon_path density is_round)))"
    by (intro exI [of _ st'] conjI)
qed

theorem missing_item_is_skipped_and_the_run_goes_on_witness:
  "path_exists demo_world (circular_SOURCE_LOGO demo_home) \<and>
   circular_ready ref_lib (circular_SOURCE_LOGO demo_home) demo_world \<and>
   path_exists demo_world (splash_SOURCE_LOGO demo_home) \<and>
   splash_ready ref_lib (splash_SOURCE_LOGO demo_home) demo_world \<and>
   scale_ready ref_lib demo_world \<and>
   path_exists demo_world (mipmap_dir ''mdpi'') \<and> \<not> path_exists demo_world (mipmap_dir ''hdpi'') \<and>
   path_exists demo_world (drawable_dir ''hdpi'' False) \<and> \<not> path_exists demo_world (drawable_dir ''hdpi'' True) \<and>
   path_exists demo_world (icon_path ''mdpi'' False) \<and> \<not> path_exists demo_world (icon_path ''mdpi'' True) \<and>
   (((\<exists>st'. circular_main ref_lib demo_home demo_world = Inr st' \<and>
         (\<forall>(density, sz) \<in> set ICON_SIZES.
            count_list (printed demo_world st') (Warning_not_found (mipmap_dir density))
              = (if path_exists demo_world (mipmap_dir density) then 0 else 1) \<and>
            (\<forall>is_round.
               if path_exists demo_world (mipmap_dir density)
               then \<exists>st1. create_circular_icon ref_lib (circular_SOURCE_LOGO demo_home)
                             (icon_path density is_round) sz is_round demo_world = Inr st1 \<and>
                           files st' (icon_path density is_round) = files st1 (icon_path density is_round)
               else files st' (icon_path density is_round) = files demo_world (icon_path density is_round))))) \<and>
   ((\<exists>st'. splash_main ref_lib demo_home demo_world = Inr st' \<and>
         (\<forall>(density, sz) \<in> set SPLASH_SIZES. \<forall>dark.
            count_list (printed demo_world st') (Warning_not_found (drawable_dir density dark))
              = (if path_exists demo_world (drawable_dir density dark) then 0 else 1) \<and>
            (if path_exists demo_world (drawable_dir density dark)
             then \<exists>st1. generate_splash_logo ref_lib (splash_SOURCE_LOGO demo_home)
                           (splash_path density dark) sz demo_world = Inr st1 \<and>
                         files st' (splash_path density dark) = files st1 (splash_path density dark)
             else files st' (splash_path density dark) = files demo_world (splash_path density dark))))) \<and>
   ((\<exists>st'. scale_main ref_lib demo_world = Inr st' \<and>
         (\<forall>(density, sz) \<in> set DENSITIES. \<forall>is_round.
            count_list (printed demo_world st') (Warning_not_found (icon_path density is_round))
              = (if path_exists demo_world (icon_path density is_round) then 0 else 1) \<and>
            (if path_exists demo_world (icon_path density is_round)
             then \<exists>st1. scale_icon ref_lib (icon_path density is_round) (icon_path density is_round) sz demo_world = Inr st1 \<and>
                         files st' (icon_path density is_round) = files st1 (icon_path density is_round)
             else files st' (icon_path density is_round) = files demo_world (icon_path density is_round))))))"
proof -
  have e: "path_exists demo_world (mipmap_dir ''mdpi'')" "\<not> path_exists demo_world (mipmap_dir ''hdpi'')"
    "path_exists demo_world (drawable_dir ''hdpi'' False)" "\<not> path_exists demo_world (drawable_dir ''hdpi'' True)"
    by (simp_all add: path_exists_def demo_world_def mipmap_dir_eq drawable_dir_eq)
  have f: "path_exists demo_world (icon_path ''mdpi'' False)" "\<not> path_exists demo_world (icon_path ''mdpi'' True)"
    by (simp_all add: path_exists_def demo_world_def icon_path_def mipmap_dir_eq path_join_def)
  from missing_item_is_skipped_and_the_run_goes_on [of demo_world demo_home ref_lib]
    demo_sources_exist demo_circular_ready demo_splash_ready demo_scale_ready e f
  show ?thesis by - (intro conjI; (assumption | (elim conjE impE; (assumption | (intro conjI; assumption)))))
qed

end
